theory Spec2Isabelle
  imports
    Main
    "HOL-Library.Char_ord"
    "HOL-Library.List_Lexorder"
    "HOL-Library.Multiset"
begin

section \<open>Text and character classes\<close>

text \<open>
  A Python \<open>str\<close> is a sequence of code points. This first model of the scorer covers the
  texts whose code points are below 256: a \<^typ>\<open>char\<close> is the code point itself, and the
  three tables that the scorer depends on (\<open>str.lower\<close>, the regular-expression classes
  \<open>\w\<close> and \<open>\s\<close> of a \<open>str\<close> pattern) are written out for that range, where
  \<open>str.lower\<close> maps every code point to one code point. The second model, further down,
  covers every text, and agrees with this one on the texts of this one.
\<close>

definition code_point :: "char \<Rightarrow> nat" where
  "code_point c = of_char c"

definition in_range :: "nat \<Rightarrow> nat \<Rightarrow> nat \<Rightarrow> bool" where
  "in_range lo hi n = (lo \<le> n \<and> n \<le> hi)"

text \<open>\<open>\w\<close>: alphanumeric code points and the underscore.\<close>

definition is_word :: "char \<Rightarrow> bool" where
  "is_word c = (let n = code_point c in
     in_range 48 57 n \<or> in_range 65 90 n \<or> n = 95 \<or> in_range 97 122 n \<or> n = 170 \<or>
     in_range 178 179 n \<or> n = 181 \<or> in_range 185 186 n \<or> in_range 188 190 n \<or>
     in_range 192 214 n \<or> in_range 216 246 n \<or> in_range 248 255 n)"

text \<open>\<open>\s\<close>: white space.\<close>

definition is_space :: "char \<Rightarrow> bool" where
  "is_space c = (let n = code_point c in
     in_range 9 13 n \<or> in_range 28 32 n \<or> n = 133 \<or> n = 160)"

text \<open>The class \<open>[0-5]\<close>, and \<open>[0-9]\<close> for the statements about digits.\<close>

definition is_digit05 :: "char \<Rightarrow> bool" where
  "is_digit05 c = in_range 48 53 (code_point c)"

definition is_digit :: "char \<Rightarrow> bool" where
  "is_digit c = in_range 48 57 (code_point c)"

text \<open>The class \<open>[:\s]\<close>.\<close>

definition is_sep :: "char \<Rightarrow> bool" where
  "is_sep c = (c = CHR '':'' \<or> is_space c)"

text \<open>\<open>str.lower\<close>, one code point at a time.\<close>

definition lower_char :: "char \<Rightarrow> char" where
  "lower_char c = (let n = code_point c in
     if in_range 65 90 n \<or> (in_range 192 222 n \<and> n \<noteq> 215) then char_of (n + 32) else c)"

definition str_lower :: "string \<Rightarrow> string" where
  "str_lower s = map lower_char s"

text \<open>\<open>int(match.group(1))\<close> for a group that is one decimal digit.\<close>

definition digit_value :: "char \<Rightarrow> int" where
  "digit_value c = int (code_point c) - 48"


section \<open>The Response Scorer\<close>

text \<open>
  The four patterns of \<open>_extract_numeric_value\<close>, in the order of the list \<open>patterns\<close>:
  \<^verbatim>\<open>\b([0-5])\b\<close> and \<^verbatim>\<open>rating[:\s]+([0-5])\<close>, \<^verbatim>\<open>score[:\s]+([0-5])\<close>,
  \<^verbatim>\<open>value[:\s]+([0-5])\<close>.
\<close>

datatype pattern = BareDigit | Labelled string

definition patterns :: "pattern list" where
  "patterns = [BareDigit, Labelled ''rating'', Labelled ''score'', Labelled ''value'']"

text \<open>
  \<open>\b\<close> at position \<open>i\<close> of \<open>s\<close>: exactly one of the characters before and after the
  position is a word character; the start and the end of the text count as non-word.
\<close>

definition word_boundary :: "string \<Rightarrow> nat \<Rightarrow> bool" where
  "word_boundary s i =
     ((0 < i \<and> i \<le> length s \<and> is_word (s ! (i - 1))) \<noteq> (i < length s \<and> is_word (s ! i)))"

text \<open>
  A match of a pattern that starts at position \<open>i\<close>, as the text of its group 1.
  In \<^verbatim>\<open>[:\s]+([0-5])\<close> the greedy run of separators never has to give a character
  back, because no separator is a digit: the run is the longest one, it is not empty, and
  the character after it is the group.
\<close>

fun match_at :: "pattern \<Rightarrow> string \<Rightarrow> nat \<Rightarrow> char option" where
  "match_at BareDigit s i =
     (if i < length s \<and> word_boundary s i \<and> is_digit05 (s ! i) \<and> word_boundary s (Suc i)
      then Some (s ! i) else None)"
| "match_at (Labelled lbl) s i =
     (let rest = drop i s in
      if take (length lbl) rest = lbl then
        (let after = drop (length lbl) rest in
         if takeWhile is_sep after \<noteq> [] then
           (case dropWhile is_sep after of
              [] \<Rightarrow> None
            | d # _ \<Rightarrow> if is_digit05 d then Some d else None)
         else None)
      else None)"

text \<open>\<open>re.search\<close>: the match at the leftmost start position that has one.\<close>

definition re_search :: "pattern \<Rightarrow> string \<Rightarrow> char option" where
  "re_search p s =
     (case find (\<lambda>i. match_at p s i \<noteq> None) [0..<Suc (length s)] of
        None \<Rightarrow> None
      | Some i \<Rightarrow> match_at p s i)"

text \<open>The loop \<open>for pattern in patterns\<close> with its fall-through \<open>return -1\<close>.\<close>

fun first_match :: "pattern list \<Rightarrow> string \<Rightarrow> int" where
  "first_match [] text = - 1"
| "first_match (p # ps) text =
     (case re_search p text of
        Some d \<Rightarrow> digit_value d
      | None \<Rightarrow> first_match ps text)"

definition extract_numeric_value :: "string \<Rightarrow> int" where
  "extract_numeric_value response = first_match patterns (str_lower response)"

text \<open>
  Positions named by the statements about the scorer. A bare digit is a digit 0-5 whose
  neighbours, where it has any, are not word characters; a lone digit is a digit 0-5 whose
  neighbours, where it has any, are not digits. \<open>leftmost P s\<close> is the first position of
  \<open>s\<close> that satisfies \<open>P\<close>.
\<close>

definition bare_digit_at :: "string \<Rightarrow> nat \<Rightarrow> bool" where
  "bare_digit_at s i =
     (i < length s \<and> is_digit05 (s ! i) \<and>
      (i = 0 \<or> \<not> is_word (s ! (i - 1))) \<and>
      (Suc i = length s \<or> \<not> is_word (s ! Suc i)))"

definition lone_digit_at :: "string \<Rightarrow> nat \<Rightarrow> bool" where
  "lone_digit_at s i =
     (i < length s \<and> is_digit05 (s ! i) \<and>
      (i = 0 \<or> \<not> is_digit (s ! (i - 1))) \<and>
      (Suc i = length s \<or> \<not> is_digit (s ! Suc i)))"

definition leftmost :: "(nat \<Rightarrow> bool) \<Rightarrow> 'a list \<Rightarrow> nat option" where
  "leftmost P s = find P [0..<length s]"

definition labels :: "string list" where
  "labels = [''rating'', ''score'', ''value'']"



section \<open>The Response Scorer on Unicode text\<close>

text \<open>
  The scorer once more, on a text as the list of its code points, whatever they are. The
  classes and the lower-case forms of the ASCII code points are written out. What the
  Unicode database says of the other code points is not part of the repository and is a
  parameter of the model: the lower-case form of the code point at a position of a text,
  which may be several code points and which, for capital sigma, depends on the letters
  around the position; whether a code point is alphanumeric; and whether it is white space.
\<close>

record unicode =
  lower_of :: "nat list \<Rightarrow> nat \<Rightarrow> nat list"
  alnum :: "nat \<Rightarrow> bool"
  whitespace :: "nat \<Rightarrow> bool"

definition uni_is_word :: "unicode \<Rightarrow> nat \<Rightarrow> bool" where
  "uni_is_word U c =
     (if c < 128
      then in_range 48 57 c \<or> in_range 65 90 c \<or> c = 95 \<or> in_range 97 122 c
      else alnum U c)"

definition uni_is_space :: "unicode \<Rightarrow> nat \<Rightarrow> bool" where
  "uni_is_space U c =
     (if c < 128 then in_range 9 13 c \<or> in_range 28 32 c else whitespace U c)"

definition uni_is_digit05 :: "nat \<Rightarrow> bool" where
  "uni_is_digit05 c = in_range 48 53 c"

definition uni_is_digit :: "nat \<Rightarrow> bool" where
  "uni_is_digit c = in_range 48 57 c"

definition uni_is_sep :: "unicode \<Rightarrow> nat \<Rightarrow> bool" where
  "uni_is_sep U c = (c = 58 \<or> uni_is_space U c)"

definition uni_lower_at :: "unicode \<Rightarrow> nat list \<Rightarrow> nat \<Rightarrow> nat list" where
  "uni_lower_at U s i =
     (let c = s ! i in
      if c < 128 then [if in_range 65 90 c then c + 32 else c] else lower_of U s i)"

definition uni_lower :: "unicode \<Rightarrow> nat list \<Rightarrow> nat list" where
  "uni_lower U s = concat (map (uni_lower_at U s) [0..<length s])"

definition uni_digit_value :: "nat \<Rightarrow> int" where
  "uni_digit_value c = int c - 48"

definition code_points :: "string \<Rightarrow> nat list" where
  "code_points s = map code_point s"

definition uni_word_boundary :: "unicode \<Rightarrow> nat list \<Rightarrow> nat \<Rightarrow> bool" where
  "uni_word_boundary U s i =
     ((0 < i \<and> i \<le> length s \<and> uni_is_word U (s ! (i - 1))) \<noteq>
      (i < length s \<and> uni_is_word U (s ! i)))"

fun uni_match_at :: "unicode \<Rightarrow> pattern \<Rightarrow> nat list \<Rightarrow> nat \<Rightarrow> nat option" where
  "uni_match_at U BareDigit s i =
     (if i < length s \<and> uni_word_boundary U s i \<and> uni_is_digit05 (s ! i) \<and>
         uni_word_boundary U s (Suc i)
      then Some (s ! i) else None)"
| "uni_match_at U (Labelled lbl) s i =
     (let rest = drop i s in
      if take (length lbl) rest = code_points lbl then
        (let after = drop (length lbl) rest in
         if takeWhile (uni_is_sep U) after \<noteq> [] then
           (case dropWhile (uni_is_sep U) after of
              [] \<Rightarrow> None
            | d # _ \<Rightarrow> if uni_is_digit05 d then Some d else None)
         else None)
      else None)"

definition uni_re_search :: "unicode \<Rightarrow> pattern \<Rightarrow> nat list \<Rightarrow> nat option" where
  "uni_re_search U p s =
     (case find (\<lambda>i. uni_match_at U p s i \<noteq> None) [0..<Suc (length s)] of
        None \<Rightarrow> None
      | Some i \<Rightarrow> uni_match_at U p s i)"

fun uni_first_match :: "unicode \<Rightarrow> pattern list \<Rightarrow> nat list \<Rightarrow> int" where
  "uni_first_match U [] text = - 1"
| "uni_first_match U (p # ps) text =
     (case uni_re_search U p text of
        Some d \<Rightarrow> uni_digit_value d
      | None \<Rightarrow> uni_first_match U ps text)"

definition uni_extract_numeric_value :: "unicode \<Rightarrow> nat list \<Rightarrow> int" where
  "uni_extract_numeric_value U response = uni_first_match U patterns (uni_lower U response)"

text \<open>
  A bare digit of a text of code points, and the texts that \<open>str.lower\<close> changes in place:
  every code point has one code point as its lower-case form, which is a word character
  if and only if the code point is one, and no digit comes or goes.
\<close>

definition uni_bare_digit_at :: "unicode \<Rightarrow> nat list \<Rightarrow> nat \<Rightarrow> bool" where
  "uni_bare_digit_at U s i =
     (i < length s \<and> uni_is_digit05 (s ! i) \<and>
      (i = 0 \<or> \<not> uni_is_word U (s ! (i - 1))) \<and>
      (Suc i = length s \<or> \<not> uni_is_word U (s ! Suc i)))"

definition keeps_class :: "unicode \<Rightarrow> nat list \<Rightarrow> nat \<Rightarrow> bool" where
  "keeps_class U s i =
     (case uni_lower_at U s i of
        [d] \<Rightarrow> uni_is_word U d = uni_is_word U (s ! i) \<and>
               (uni_is_digit d \<or> uni_is_digit (s ! i) \<longrightarrow> d = s ! i)
      | _ \<Rightarrow> False)"

definition lowers_in_place :: "unicode \<Rightarrow> nat list \<Rightarrow> bool" where
  "lowers_in_place U s = list_all (keeps_class U s) [0..<length s]"

text \<open>
  The entries of the Unicode database for the code points 128 to 255, for U+0130 (capital
  I with dot above), whose lower-case form is \<open>i\<close> followed by U+0307, and for U+0307
  (combining dot above, not alphanumeric). The statements that name this excerpt are about
  texts of these code points and of the ASCII ones.
\<close>

definition unicode_excerpt :: unicode where
  "unicode_excerpt =
     \<lparr> lower_of = (\<lambda>s i. let c = s ! i in
                          if c = 304 then [105, 775]
                          else if in_range 192 222 c \<and> c \<noteq> 215 then [c + 32] else [c]),
       alnum = (\<lambda>c. c = 170 \<or> in_range 178 179 c \<or> c = 181 \<or> in_range 185 186 c \<or>
                     in_range 188 190 c \<or> in_range 192 214 c \<or> in_range 216 246 c \<or>
                     in_range 248 255 c \<or> c = 304),
       whitespace = (\<lambda>c. c = 133 \<or> c = 160) \<rparr>"

section \<open>Exceptions\<close>

text \<open>
  A raised \<open>Exception\<close> is a value: its class name and the text \<open>str(e)\<close>. A computation
  that may raise returns \<open>py_error + 'a\<close>, with \<open>Inl\<close> for the exception that leaves it.
\<close>

datatype py_error = PyError (err_class: string) (err_str: string)

definition bind_err :: "py_error + 'a \<Rightarrow> ('a \<Rightarrow> py_error + 'b) \<Rightarrow> py_error + 'b" where
  "bind_err m f = (case m of Inl e \<Rightarrow> Inl e | Inr x \<Rightarrow> f x)"

text \<open>A comprehension whose element expression may raise: it stops at the first exception.\<close>

fun map_err :: "('a \<Rightarrow> py_error + 'b) \<Rightarrow> 'a list \<Rightarrow> py_error + 'b list" where
  "map_err f [] = Inr []"
| "map_err f (x # xs) =
     (case f x of
        Inl e \<Rightarrow> Inl e
      | Inr y \<Rightarrow> (case map_err f xs of Inl e \<Rightarrow> Inl e | Inr ys \<Rightarrow> Inr (y # ys)))"

text \<open>
  What a call into foreign code can raise: an instance of \<open>Exception\<close>, or an exception of
  a class that is not a subclass of \<open>Exception\<close> (\<open>KeyboardInterrupt\<close>, \<open>SystemExit\<close>,
  \<open>GeneratorExit\<close>), given by its class name and its text. A handler \<open>except Exception\<close>
  catches the first kind and lets the second pass.
\<close>

datatype raised = Exc py_error | BaseExc string string

fun passes_handler :: "raised + 'a \<Rightarrow> bool" where
  "passes_handler (Inl (BaseExc cls txt)) = True"
| "passes_handler _ = False"


section \<open>The Query Orchestrator\<close>

text \<open>
  The question dictionaries built by \<open>load_questions\<close>. Their keys \<open>question\<close>, \<open>part\<close> and
  \<open>moral_foundation\<close> are keys of the results too, so the fields of a question carry the
  prefix \<open>q_\<close>.
\<close>

record question =
  q_question :: string
  q_part :: int
  q_moral_foundation :: string
  q_expected_output :: string

text \<open>The result dictionaries built by \<open>query_llm\<close>, with the keys as field names.\<close>

record query_result =
  llm :: string
  question :: string
  part :: int
  moral_foundation :: string
  response :: string
  extracted_value :: int
  timestamp :: string

datatype message = SystemMessage string | HumanMessage string

text \<open>
  The external client: \<open>llm.invoke(messages)\<close> raises, or returns a message whose
  \<open>content\<close> is a text or a list of content blocks.
\<close>

datatype content = Text string | Blocks

type_synonym llm_client = "message list \<Rightarrow> raised + content"

record analyzer =
  part1_prompt :: string
  part2_prompt :: string
  questions :: "question list"
  llms :: "(string \<times> llm_client) list"
  results :: "query_result list"

definition create_prompt :: "analyzer \<Rightarrow> question \<Rightarrow> message list" where
  "create_prompt self q =
     (let system_prompt = (if q_part q = 1 then part1_prompt self else part2_prompt self)
      in [SystemMessage system_prompt, HumanMessage (q_question q)])"

text \<open>
  The body of the \<open>try\<close> block of \<open>query_llm\<close>. \<open>now\<close> is the reading of
  \<open>datetime.now().isoformat()\<close> for this query. A content that is a list has no method
  \<open>lower\<close>, so the scorer raises \<open>AttributeError\<close> on it.
\<close>

definition try_query ::
    "string \<Rightarrow> string \<Rightarrow> llm_client \<Rightarrow> question \<Rightarrow> message list \<Rightarrow> raised + query_result" where
  "try_query now llm_name client q messages =
     (case client messages of
        Inl e \<Rightarrow> Inl e
      | Inr Blocks \<Rightarrow>
          Inl (Exc (PyError ''AttributeError''
                 (CHR 0x27 # ''list' object has no attribute 'lower'' @ [CHR 0x27])))
      | Inr (Text response_text) \<Rightarrow>
          Inr \<lparr> llm = llm_name, question = q_question q, part = q_part q,
                moral_foundation = q_moral_foundation q, response = response_text,
                extracted_value = extract_numeric_value response_text,
                timestamp = now \<rparr>)"

text \<open>
  \<open>query_llm\<close>: the \<open>try\<close> block and its handler \<open>except Exception as e\<close>. An exception
  that is not an instance of \<open>Exception\<close> leaves \<open>query_llm\<close>.
\<close>

definition query_llm ::
    "analyzer \<Rightarrow> string \<Rightarrow> string \<Rightarrow> llm_client \<Rightarrow> question \<Rightarrow> raised + query_result" where
  "query_llm self now llm_name client q =
     (let messages = create_prompt self q in
      case try_query now llm_name client q messages of
        Inr result \<Rightarrow> Inr result
      | Inl (Exc e) \<Rightarrow>
          Inr \<lparr> llm = llm_name, question = q_question q, part = q_part q,
                moral_foundation = q_moral_foundation q,
                response = ''ERROR: '' @ err_str e,
                extracted_value = - 1,
                timestamp = now \<rparr>
      | Inl (BaseExc cls txt) \<Rightarrow> Inl (BaseExc cls txt))"

text \<open>
  \<open>analyze_all\<close>: every question with every client, in that order of nesting. \<open>clock n\<close>
  is the time of the \<open>n\<close>-th query. The state of the two loops is the query count and the
  list \<open>self.results\<close>; an exception that leaves \<open>query_llm\<close> ends the loops.
\<close>

fun llm_loop ::
    "analyzer \<Rightarrow> (nat \<Rightarrow> string) \<Rightarrow> question \<Rightarrow> (string \<times> llm_client) list \<Rightarrow>
     nat \<times> query_result list \<Rightarrow> raised + nat \<times> query_result list" where
  "llm_loop self clock q [] st = Inr st"
| "llm_loop self clock q ((llm_name, client) # rest) (query_count, res) =
     (case query_llm self (clock (Suc query_count)) llm_name client q of
        Inl e \<Rightarrow> Inl e
      | Inr result \<Rightarrow> llm_loop self clock q rest (Suc query_count, res @ [result]))"

fun question_loop ::
    "analyzer \<Rightarrow> (nat \<Rightarrow> string) \<Rightarrow> question list \<Rightarrow>
     nat \<times> query_result list \<Rightarrow> raised + nat \<times> query_result list" where
  "question_loop self clock [] st = Inr st"
| "question_loop self clock (q # qs) st =
     (case llm_loop self clock q (llms self) st of
        Inl e \<Rightarrow> Inl e
      | Inr st' \<Rightarrow> question_loop self clock qs st')"

text \<open>The slice \<open>xs[:k]\<close>.\<close>

definition slice_to :: "int \<Rightarrow> 'a list \<Rightarrow> 'a list" where
  "slice_to k xs = (if 0 \<le> k then take (nat k) xs else take (length xs - nat (- k)) xs)"

definition questions_to_analyze :: "analyzer \<Rightarrow> int option \<Rightarrow> question list" where
  "questions_to_analyze self limit =
     (case limit of
        None \<Rightarrow> questions self
      | Some k \<Rightarrow> if k \<noteq> 0 then slice_to k (questions self) else questions self)"

definition analyze_all ::
    "analyzer \<Rightarrow> (nat \<Rightarrow> string) \<Rightarrow> int option \<Rightarrow> raised + query_result list" where
  "analyze_all self clock limit =
     (case question_loop self clock (questions_to_analyze self limit) (0, results self) of
        Inl e \<Rightarrow> Inl e
      | Inr (query_count, res) \<Rightarrow> Inr res)"


section \<open>The Result Aggregator\<close>

text \<open>
  A data frame built from a list of result dictionaries is the list of its rows. The
  column \<open>extracted_value\<close> holds 64-bit integers (the values that \<open>query_llm\<close> writes fit),
  and the sum of a column is taken in that type: it wraps around.
\<close>

definition int64 :: "int \<Rightarrow> int" where
  "int64 x = (x + 2 ^ 63) mod 2 ^ 64 - 2 ^ 63"

definition series_sum :: "int list \<Rightarrow> int" where
  "series_sum xs = foldl (\<lambda>acc v. int64 (acc + v)) 0 xs"

text \<open>\<open>sorted(column.unique())\<close> on a column of texts.\<close>

definition sorted_unique :: "string list \<Rightarrow> string list" where
  "sorted_unique xs = sort (remdups xs)"

text \<open>The missing column of a frame with no rows: \<open>pd.DataFrame([])\<close> has no columns.\<close>

definition column_check :: "string \<Rightarrow> query_result list \<Rightarrow> py_error + unit" where
  "column_check name df =
     (if df = [] then Inl (PyError ''KeyError'' (CHR 0x27 # name @ [CHR 0x27])) else Inr ())"

text \<open>
  \<open>HTMLReportGenerator\<close>: the frames \<open>df\<close> and \<open>valid_df\<close> that \<open>_load_data\<close> builds from the
  rows that \<open>json.load\<close> returned.
\<close>

record report_generator =
  df :: "query_result list"
  valid_df :: "query_result list"

definition load_data :: "query_result list \<Rightarrow> py_error + report_generator" where
  "load_data rows =
     bind_err (column_check ''extracted_value'' rows) (\<lambda>_.
       Inr \<lparr> df = rows, valid_df = filter (\<lambda>r. 0 \<le> extracted_value r) rows \<rparr>)"

record stats =
  stats_llms :: "string list"
  stats_foundations :: "string list"
  by_llm_foundation :: "(string \<times> (string \<times> int) list) list"
  total_by_foundation :: "(string \<times> int) list"

text \<open>
  \<open>_calculate_statistics\<close>. The two dictionaries are the lists of their items, in the
  order in which the loops insert the keys, which are distinct.
\<close>

definition calculate_statistics :: "report_generator \<Rightarrow> stats" where
  "calculate_statistics self =
     (let ms = sorted_unique (map llm (df self));
          fs = sorted_unique (map moral_foundation (valid_df self))
      in \<lparr> stats_llms = ms,
            stats_foundations = fs,
            by_llm_foundation =
              map (\<lambda>m.
                (m, let llm_df = filter (\<lambda>r. llm r = m) (valid_df self) in
                    map (\<lambda>f.
                      (f, let foundation_df = filter (\<lambda>r. moral_foundation r = f) llm_df
                          in series_sum (map extracted_value foundation_df))) fs)) ms,
            total_by_foundation =
              map (\<lambda>f.
                (f, let foundation_df = filter (\<lambda>r. moral_foundation r = f) (valid_df self)
                    in series_sum (map extracted_value foundation_df))) fs \<rparr>)"

text \<open>The aggregates of the report for a list of results: load, then calculate.\<close>

definition report_statistics :: "query_result list \<Rightarrow> py_error + stats" where
  "report_statistics rows = bind_err (load_data rows) (\<lambda>g. Inr (calculate_statistics g))"

text \<open>
  \<open>_generate_summary\<close>, as the lines it writes under "SUM OF SCORES": for each model its
  name, the numbers of valid and of all responses, and a sum for each foundation that has
  a valid response of that model.
\<close>

record summary_block =
  block_llm :: string
  block_valid :: nat
  block_total :: nat
  block_sums :: "(string \<times> int) list"

definition generate_summary :: "query_result list \<Rightarrow> py_error + summary_block list" where
  "generate_summary res =
     bind_err (column_check ''llm'' res) (\<lambda>_.
       (let valid = filter (\<lambda>r. 0 \<le> extracted_value r) res in
        Inr (map (\<lambda>m.
               (let llm_df = filter (\<lambda>r. llm r = m) valid in
                \<lparr> block_llm = m,
                  block_valid = length llm_df,
                  block_total = length (filter (\<lambda>r. llm r = m) res),
                  block_sums =
                    (if 0 < length llm_df then
                       map (\<lambda>f.
                         (f, let foundation_df = filter (\<lambda>r. moral_foundation r = f) llm_df
                             in series_sum (map extracted_value foundation_df)))
                         (sorted_unique (map moral_foundation llm_df))
                     else []) \<rparr>))
             (sorted_unique (map llm res)))))"

text \<open>
  What the statements about the aggregates name: the results that count for a model and a
  foundation, and the sum the table holds for the pair.
\<close>

definition matching :: "string \<Rightarrow> string \<Rightarrow> query_result list \<Rightarrow> query_result list" where
  "matching m f rows =
     filter (\<lambda>r. 0 \<le> extracted_value r \<and> llm r = m \<and> moral_foundation r = f) rows"

definition table_sum :: "stats \<Rightarrow> string \<Rightarrow> string \<Rightarrow> int option" where
  "table_sum st m f =
     (case map_of (by_llm_foundation st) m of
        None \<Rightarrow> None
      | Some row \<Rightarrow> map_of row f)"

definition legal_value :: "int \<Rightarrow> bool" where
  "legal_value v = (v = - 1 \<or> (0 \<le> v \<and> v \<le> 5))"


section \<open>The persisted result file\<close>

text \<open>
  The content of a result file is a JSON document. \<open>json.dump\<close> and \<open>json.load\<close> are the
  library's: the model starts from the document they write and read. Numbers are
  integers (a number with a fraction or an exponent is outside the model); an object is
  the list of its items.
\<close>

datatype json =
    JNull
  | JBool bool
  | JInt int
  | JStr string
  | JList "json list"
  | JObj "(string \<times> json) list"

text \<open>The document that \<open>save_results\<close> writes: the array of the result dictionaries.\<close>

definition result_dict :: "query_result \<Rightarrow> json" where
  "result_dict r =
     JObj [(''llm'', JStr (llm r)),
           (''question'', JStr (question r)),
           (''part'', JInt (part r)),
           (''moral_foundation'', JStr (moral_foundation r)),
           (''response'', JStr (response r)),
           (''extracted_value'', JInt (extracted_value r)),
           (''timestamp'', JStr (timestamp r))]"

definition dump_results :: "query_result list \<Rightarrow> json" where
  "dump_results res = JList (map result_dict res)"

text \<open>
  Reading a document of that format back into rows. A document that is not an array of
  objects with these seven fields, typed as above, is not of the format (\<open>None\<close>).
\<close>

fun as_str :: "json option \<Rightarrow> string option" where
  "as_str (Some (JStr s)) = Some s"
| "as_str _ = None"

fun as_int :: "json option \<Rightarrow> int option" where
  "as_int (Some (JInt i)) = Some i"
| "as_int _ = None"

fun row_of :: "json \<Rightarrow> query_result option" where
  "row_of (JObj items) =
     (case (as_str (map_of items ''llm''), as_str (map_of items ''question''),
            as_int (map_of items ''part''), as_str (map_of items ''moral_foundation''),
            as_str (map_of items ''response''), as_int (map_of items ''extracted_value''),
            as_str (map_of items ''timestamp'')) of
        (Some l, Some q, Some p, Some m, Some t, Some v, Some ts) \<Rightarrow>
          Some \<lparr> llm = l, question = q, part = p, moral_foundation = m, response = t,
                 extracted_value = v, timestamp = ts \<rparr>
      | _ \<Rightarrow> None)"
| "row_of _ = None"

fun rows_of :: "json list \<Rightarrow> query_result list option" where
  "rows_of [] = Some []"
| "rows_of (j # js) =
     (case row_of j of
        None \<Rightarrow> None
      | Some r \<Rightarrow> (case rows_of js of None \<Rightarrow> None | Some rs \<Rightarrow> Some (r # rs)))"

fun load_results :: "json \<Rightarrow> query_result list option" where
  "load_results (JList js) = rows_of js"
| "load_results _ = None"

text \<open>\<open>HTMLReportGenerator(json_path)\<close> on a file of the format, up to its aggregates.\<close>

definition report_of_file :: "json \<Rightarrow> (py_error + stats) option" where
  "report_of_file doc = map_option report_statistics (load_results doc)"


section \<open>The dashboard index\<close>

text \<open>Python on JSON values: truth, iteration, subscription, \<open>dict.get\<close>.\<close>

fun truthy :: "json \<Rightarrow> bool" where
  "truthy JNull = False"
| "truthy (JBool b) = b"
| "truthy (JInt i) = (i \<noteq> 0)"
| "truthy (JStr s) = (s \<noteq> [])"
| "truthy (JList xs) = (xs \<noteq> [])"
| "truthy (JObj items) = (items \<noteq> [])"

definition type_error :: py_error where
  "type_error = PyError ''TypeError'' []"

fun iterate :: "json \<Rightarrow> py_error + json list" where
  "iterate (JList xs) = Inr xs"
| "iterate (JObj items) = Inr (map (\<lambda>(k, v). JStr k) items)"
| "iterate (JStr s) = Inr (map (\<lambda>c. JStr [c]) s)"
| "iterate _ = Inl type_error"

fun subscript :: "string \<Rightarrow> json \<Rightarrow> py_error + json" where
  "subscript key (JObj items) =
     (case map_of items key of
        None \<Rightarrow> Inl (PyError ''KeyError'' (CHR 0x27 # key @ [CHR 0x27]))
      | Some v \<Rightarrow> Inr v)"
| "subscript key _ = Inl type_error"

fun dict_get :: "string \<Rightarrow> json \<Rightarrow> json \<Rightarrow> py_error + json" where
  "dict_get key dflt (JObj items) =
     (case map_of items key of None \<Rightarrow> Inr dflt | Some v \<Rightarrow> Inr v)"
| "dict_get key dflt _ = Inl (PyError ''AttributeError'' [])"

text \<open>
  \<open>set(f(r) for r in rows)\<close> on JSON values: row by row, the value is computed and then
  hashed. Lists and objects are unhashable; \<open>True\<close> and \<open>False\<close> are equal to 1 and 0,
  and the set keeps the element that came first. The set is given as the list of its
  elements.
\<close>

fun hashable :: "json \<Rightarrow> bool" where
  "hashable (JList xs) = False"
| "hashable (JObj items) = False"
| "hashable _ = True"

fun py_key :: "json \<Rightarrow> json" where
  "py_key (JBool b) = JInt (if b then 1 else 0)"
| "py_key j = j"

fun insert_new :: "json \<Rightarrow> json list \<Rightarrow> json list" where
  "insert_new x seen = (if py_key x \<in> py_key ` set seen then seen else seen @ [x])"

fun set_loop ::
    "(json \<Rightarrow> py_error + json) \<Rightarrow> json list \<Rightarrow> json list \<Rightarrow> py_error + json list" where
  "set_loop f seen [] = Inr seen"
| "set_loop f seen (r # rows) =
     (case f r of
        Inl e \<Rightarrow> Inl e
      | Inr v \<Rightarrow> if hashable v then set_loop f (insert_new v seen) rows else Inl type_error)"

definition py_set :: "(json \<Rightarrow> py_error + json) \<Rightarrow> json list \<Rightarrow> py_error + json list" where
  "py_set f rows = set_loop f [] rows"

text \<open>
  \<open>sorted(...)\<close> of the elements of a set: texts compare with texts and numbers with
  numbers; any other pair of elements raises \<open>TypeError\<close>.
\<close>

fun str_items :: "json list \<Rightarrow> string list option" where
  "str_items [] = Some []"
| "str_items (JStr s # js) = map_option ((#) s) (str_items js)"
| "str_items (_ # js) = None"

fun num_items :: "json list \<Rightarrow> bool" where
  "num_items [] = True"
| "num_items (JInt i # js) = num_items js"
| "num_items (JBool b # js) = num_items js"
| "num_items (_ # js) = False"

fun num_of :: "json \<Rightarrow> int" where
  "num_of (JInt i) = i"
| "num_of (JBool b) = (if b then 1 else 0)"
| "num_of _ = 0"

definition py_sorted :: "json list \<Rightarrow> py_error + json list" where
  "py_sorted xs =
     (if length xs \<le> 1 then Inr xs
      else case str_items xs of
             Some ss \<Rightarrow> Inr (map JStr (sort ss))
           | None \<Rightarrow> if num_items xs then Inr (sort_key num_of xs) else Inl type_error)"

text \<open>\<open>v >= 0\<close> for a JSON value \<open>v\<close>.\<close>

fun ge_zero :: "json \<Rightarrow> py_error + bool" where
  "ge_zero (JInt i) = Inr (0 \<le> i)"
| "ge_zero (JBool b) = Inr True"
| "ge_zero _ = Inl type_error"

text \<open>\<open>os.path.basename\<close> and \<open>json_file.replace('\\', '/')\<close>.\<close>

definition basename :: "string \<Rightarrow> string" where
  "basename path = rev (takeWhile (\<lambda>c. c \<noteq> CHR ''/'') (rev path))"

definition slashes :: "string \<Rightarrow> string" where
  "slashes path = map (\<lambda>c. if c = CHR 0x5C then CHR ''/'' else c) path"

text \<open>
  A file of the results directory: what \<open>open\<close> and \<open>json.load\<close> give for it (an exception
  for a file that cannot be read or parsed) and the ISO text of its modification time.
\<close>

record result_file =
  contents :: "py_error + json"
  mtime_iso :: string

record index_entry =
  ix_filename :: string
  ix_filepath :: string
  ix_timestamp :: json
  ix_llms :: "json list"
  ix_llm_count :: nat
  ix_foundations :: "json list"
  ix_question_count :: nat
  ix_total_responses :: nat
  ix_valid_responses :: nat
  ix_date_generated :: string

text \<open>
  The body of the \<open>try\<close> block of \<open>update_dashboard_index\<close> for one file: an exception,
  no entry (the \<open>continue\<close> for a document that is false), or the entry appended.
\<close>

definition index_file :: "string \<Rightarrow> result_file \<Rightarrow> py_error + index_entry option" where
  "index_file json_file file =
     bind_err (contents file) (\<lambda>data.
       if \<not> truthy data then Inr None
       else
         bind_err (iterate data) (\<lambda>rows.
         bind_err (py_set (subscript ''llm'') rows) (\<lambda>llm_set.
         bind_err (py_sorted llm_set) (\<lambda>llms.
         bind_err (py_set (subscript ''moral_foundation'') rows) (\<lambda>foundation_set.
         bind_err (py_sorted foundation_set) (\<lambda>foundations.
         bind_err (map_err (dict_get ''timestamp'' JNull) rows) (\<lambda>stamps.
         bind_err (map_err (\<lambda>r. bind_err (dict_get ''extracted_value'' (JInt (- 1)) r) ge_zero)
                    rows) (\<lambda>flags.
         bind_err (py_set (subscript ''question'') rows) (\<lambda>question_set.
           (let timestamps = filter truthy stamps;
                valid_responses = filter (\<lambda>b. b) flags;
                relative_path = CHR ''/'' # slashes json_file
            in Inr (Some
                 \<lparr> ix_filename = basename json_file,
                   ix_filepath = relative_path,
                   ix_timestamp = (case timestamps of [] \<Rightarrow> JNull | t # _ \<Rightarrow> t),
                   ix_llms = llms,
                   ix_llm_count = length llms,
                   ix_foundations = foundations,
                   ix_question_count = length question_set,
                   ix_total_responses = length rows,
                   ix_valid_responses = length valid_responses,
                   ix_date_generated = mtime_iso file \<rparr>)))))))))))"

text \<open>
  The loop over \<open>sorted(json_files, reverse=True)\<close>: the index, and the warnings printed
  (the file and its exception), both in the order of the loop.
\<close>

fun index_loop ::
    "(string \<Rightarrow> result_file) \<Rightarrow> string list \<Rightarrow> index_entry list \<times> (string \<times> py_error) list" where
  "index_loop fs [] = ([], [])"
| "index_loop fs (json_file # rest) =
     (let (index, warnings) = index_loop fs rest in
      case index_file json_file (fs json_file) of
        Inl e \<Rightarrow> (index, (json_file, e) # warnings)
      | Inr None \<Rightarrow> (index, warnings)
      | Inr (Some entry) \<Rightarrow> (entry # index, warnings))"

definition update_dashboard_index ::
    "(string \<Rightarrow> result_file) \<Rightarrow> string list \<Rightarrow> index_entry list \<times> (string \<times> py_error) list" where
  "update_dashboard_index fs json_files = index_loop fs (rev (sort json_files))"

text \<open>
  The words "earliest timestamp found among the records": the least, in the order of ISO
  8601 texts, of the timestamps that are not empty; \<open>None\<close> in Python when there is none.
\<close>

definition earliest_timestamp :: "query_result list \<Rightarrow> json" where
  "earliest_timestamp res =
     (let ts = filter (\<lambda>t. t \<noteq> []) (map timestamp res)
      in if ts = [] then JNull else JStr (Min (set ts)))"

definition first_timestamp :: "query_result list \<Rightarrow> json" where
  "first_timestamp res =
     (case filter (\<lambda>t. t \<noteq> []) (map timestamp res) of [] \<Rightarrow> JNull | t # _ \<Rightarrow> JStr t)"


section \<open>Sample data\<close>

text \<open>
  Two questions, one of each part, and two clients: one always answers "4", the other
  always raises a timeout; a third client is interrupted from the keyboard. \<open>sample_results\<close> is the list that \<open>analyze_all\<close> collects
  from them; \<open>late_first_results\<close> is a list whose first record has the later timestamp.
\<close>

definition sample_q1 :: question where
  "sample_q1 = \<lparr> q_question = ''Whether or not someone suffered emotionally'', q_part = 1,
                 q_moral_foundation = ''Harm-Care'', q_expected_output = ''0-5'' \<rparr>"

definition sample_q2 :: question where
  "sample_q2 = \<lparr> q_question = ''Compassion for those who are suffering is the most crucial virtue'',
                 q_part = 2, q_moral_foundation = ''Harm-Care'', q_expected_output = ''0-5'' \<rparr>"

definition client_four :: llm_client where
  "client_four messages = Inr (Text ''4'')"

definition client_timeout :: llm_client where
  "client_timeout messages = Inl (Exc (PyError ''TimeoutError'' ''timeout''))"


definition sample_analyzer :: analyzer where
  "sample_analyzer =
     \<lparr> part1_prompt = ''Rate the relevance from 0 to 5.'',
       part2_prompt = ''Rate your agreement from 0 to 5.'',
       questions = [sample_q1, sample_q2],
       llms = [(''model-a'', client_four), (''model-b'', client_timeout)],
       results = [] \<rparr>"


definition sample_clock :: "nat \<Rightarrow> string" where
  "sample_clock n = ''2025-01-01T10:00:0'' @ [char_of (48 + n)]"

definition sample_results :: "query_result list" where
  "sample_results =
     [\<lparr> llm = ''model-a'', question = q_question sample_q1, part = 1,
        moral_foundation = ''Harm-Care'', response = ''4'', extracted_value = 4,
        timestamp = ''2025-01-01T10:00:01'' \<rparr>,
      \<lparr> llm = ''model-b'', question = q_question sample_q1, part = 1,
        moral_foundation = ''Harm-Care'', response = ''ERROR: timeout'', extracted_value = - 1,
        timestamp = ''2025-01-01T10:00:02'' \<rparr>,
      \<lparr> llm = ''model-a'', question = q_question sample_q2, part = 2,
        moral_foundation = ''Harm-Care'', response = ''4'', extracted_value = 4,
        timestamp = ''2025-01-01T10:00:03'' \<rparr>,
      \<lparr> llm = ''model-b'', question = q_question sample_q2, part = 2,
        moral_foundation = ''Harm-Care'', response = ''ERROR: timeout'', extracted_value = - 1,
        timestamp = ''2025-01-01T10:00:04'' \<rparr>]"

definition late_first_results :: "query_result list" where
  "late_first_results =
     [\<lparr> llm = ''model-a'', question = q_question sample_q1, part = 1,
        moral_foundation = ''Harm-Care'', response = ''4'', extracted_value = 4,
        timestamp = ''2025-10-26T02:59:58'' \<rparr>,
      \<lparr> llm = ''model-a'', question = q_question sample_q2, part = 2,
        moral_foundation = ''Harm-Care'', response = ''3'', extracted_value = 3,
        timestamp = ''2025-10-26T02:00:01'' \<rparr>]"

text \<open>Two texts that start with U+0130: it is followed by "5 4 rating: 5" and by "3 4".\<close>

definition dotted_text :: "nat list" where
  "dotted_text = 304 # code_points ''5 4 rating: 5''"

definition dotted_short_text :: "nat list" where
  "dotted_short_text = 304 # code_points ''3 4''"

definition corrupt_file :: result_file where
  "corrupt_file =
     \<lparr> contents = Inl (PyError ''JSONDecodeError'' ''Expecting value: line 1 column 1 (char 0)''),
       mtime_iso = ''2025-01-03T08:00:00'' \<rparr>"

definition sample_file :: result_file where
  "sample_file = \<lparr> contents = Inr (dump_results sample_results),
                   mtime_iso = ''2025-01-01T10:00:05'' \<rparr>"

definition late_first_file :: result_file where
  "late_first_file = \<lparr> contents = Inr (dump_results late_first_results),
                       mtime_iso = ''2025-10-26T02:00:02'' \<rparr>"

definition sample_directory :: "string \<Rightarrow> result_file" where
  "sample_directory path =
     (if path = ''results/moral_foundations_results_20250101_100005.json'' then sample_file
      else corrupt_file)"


section \<open>Properties of the Response Scorer\<close>

lemma code_point_less: "code_point c < 256"
  by (simp add: code_point_def)

lemma code_point_lower:
  "code_point (lower_char c) =
     (if in_range 65 90 (code_point c) \<or> (in_range 192 222 (code_point c) \<and> code_point c \<noteq> 215)
      then code_point c + 32 else code_point c)"
  using code_point_less [of c]
  by (auto simp: lower_char_def Let_def code_point_def in_range_def)

lemma is_word_lower [simp]: "is_word (lower_char c) = is_word c"
  unfolding is_word_def Let_def code_point_lower
  using code_point_less [of c]
  by (auto simp: in_range_def)

lemma is_digit05_lower [simp]: "is_digit05 (lower_char c) = is_digit05 c"
  unfolding is_digit05_def code_point_lower
  by (auto simp: in_range_def)

lemma lower_digit05: "is_digit05 c \<Longrightarrow> lower_char c = c"
  by (auto simp: is_digit05_def lower_char_def Let_def in_range_def)

lemma digit05_is_word: "is_digit05 c \<Longrightarrow> is_word c"
  by (auto simp: is_digit05_def is_word_def Let_def in_range_def)


lemma digit05_is_digit: "is_digit05 c \<Longrightarrow> is_digit c"
  by (auto simp: is_digit05_def is_digit_def in_range_def)

lemma digit_value_range: "is_digit05 c \<Longrightarrow> 0 \<le> digit_value c \<and> digit_value c \<le> 5"
  by (auto simp: is_digit05_def digit_value_def in_range_def)

lemma digit_value_inj: "digit_value c = digit_value d \<Longrightarrow> c = d"
  by (simp add: digit_value_def code_point_def)

lemma match_bare_iff: "match_at BareDigit s i = Some d \<longleftrightarrow> bare_digit_at s i \<and> d = s ! i"
  by (auto simp: bare_digit_at_def word_boundary_def digit05_is_word)

lemma match_bare_None: "match_at BareDigit s i = None \<longleftrightarrow> \<not> bare_digit_at s i"
  using match_bare_iff [of s i] by (cases "match_at BareDigit s i") auto

lemma find_app: "find P (xs @ ys) = (case find P xs of None \<Rightarrow> find P ys | Some x \<Rightarrow> Some x)"
  by (induction xs) auto

lemma bare_digit_at_lower [simp]: "bare_digit_at (str_lower s) i = bare_digit_at s i"
proof (cases "i < length s")
  case False
  then show ?thesis by (simp add: bare_digit_at_def str_lower_def)
next
  case True
  then consider "Suc i = length s" | "Suc i < length s" by linarith
  then show ?thesis
  proof cases
    case 1
    with True show ?thesis by (cases i) (simp_all add: bare_digit_at_def str_lower_def)
  next
    case 2
    with True show ?thesis by (cases i) (simp_all add: bare_digit_at_def str_lower_def)
  qed
qed

lemma re_search_bare_leftmost:
  "re_search BareDigit s = (case leftmost (bare_digit_at s) s of None \<Rightarrow> None | Some i \<Rightarrow> Some (s ! i))"
proof -
  have a: "(\<lambda>i. match_at BareDigit s i \<noteq> None) = bare_digit_at s"
    using match_bare_None [of s] by auto
  have b: "find (bare_digit_at s) [0..<Suc (length s)] = find (bare_digit_at s) [0..<length s]"
    by (simp add: find_app bare_digit_at_def split: option.splits) 
  show ?thesis
    unfolding re_search_def a b leftmost_def
    by (auto split: option.splits simp: match_bare_iff dest: find_Some_iff [THEN iffD1] simp del: match_at.simps)
qed

lemma leftmost_lower:
  "leftmost (bare_digit_at (str_lower s)) (str_lower s) = leftmost (bare_digit_at s) s"
proof -
  have "bare_digit_at (str_lower s) = bare_digit_at s"
    by (rule ext) simp
  then show ?thesis
    by (simp add: leftmost_def str_lower_def)
qed

lemma leftmost_Some_iff:
  "leftmost P s = Some i \<longleftrightarrow> i < length s \<and> P i \<and> (\<forall>j<i. \<not> P j)"
  unfolding leftmost_def find_Some_iff by auto

lemma leftmost_None_iff: "leftmost P s = None \<longleftrightarrow> (\<forall>i<length s. \<not> P i)"
  unfolding leftmost_def find_None_iff by auto

lemma match_at_digit05: "match_at p s i = Some d \<Longrightarrow> is_digit05 d"
  by (cases p) (auto simp: Let_def split: if_splits list.splits)


lemma re_search_Some: "re_search p s = Some d \<Longrightarrow> \<exists>i. match_at p s i = Some d"
  by (auto simp: re_search_def split: option.splits)



lemma re_search_digit05: "re_search p s = Some d \<Longrightarrow> is_digit05 d"
  using re_search_Some match_at_digit05 by blast

lemma first_match_range:
  "first_match ps t = - 1 \<or> (0 \<le> first_match ps t \<and> first_match ps t \<le> 5)"
  by (induction ps) (auto split: option.splits dest!: re_search_digit05 digit_value_range)


lemma extract_bare:
  assumes "leftmost (bare_digit_at s) s = Some i"
  shows "extract_numeric_value s = digit_value (s ! i)"
proof -
  from assms have "i < length s" "is_digit05 (s ! i)"
    by (auto simp: leftmost_Some_iff bare_digit_at_def)
  then have "str_lower s ! i = s ! i"
    by (simp add: str_lower_def lower_digit05)
  with assms have "re_search BareDigit (str_lower s) = Some (s ! i)"
    by (simp add: re_search_bare_leftmost leftmost_lower)
  then show ?thesis
    by (simp add: extract_numeric_value_def patterns_def)
qed




text \<open>
  The match of a labelled pattern, as the regular expression reads: the label, then one or
  more separators, then the digit of the group.
\<close>

lemma digit05_not_sep: "is_digit05 d \<Longrightarrow> \<not> is_sep d"
  by (auto simp: is_digit05_def is_sep_def is_space_def Let_def in_range_def code_point_def)

lemma labelled_match_iff:
  "match_at (Labelled lbl) s i = Some d \<longleftrightarrow>
     (\<exists>seps rest. drop i s = lbl @ seps @ d # rest \<and> seps \<noteq> [] \<and>
        (\<forall>c\<in>set seps. is_sep c) \<and> is_digit05 d)"
proof
  assume m: "match_at (Labelled lbl) s i = Some d"
  define after where "after = drop (length lbl) (drop i s)"
  from m have p: "take (length lbl) (drop i s) = lbl"
    and n: "takeWhile is_sep after \<noteq> []"
    and d: "\<exists>rest. dropWhile is_sep after = d # rest" "is_digit05 d"
    unfolding after_def by (auto simp: Let_def split: if_splits list.splits)
  from d obtain rest where rest: "dropWhile is_sep after = d # rest" by blast
  have a: "drop i s = lbl @ after"
    unfolding after_def by (metis append_take_drop_id p)
  have "after = takeWhile is_sep after @ d # rest"
    by (metis takeWhile_dropWhile_id rest)
  then have "lbl @ after = lbl @ takeWhile is_sep after @ d # rest"
    by (rule arg_cong)
  with a have "drop i s = lbl @ takeWhile is_sep after @ d # rest"
    by (rule trans)
  moreover have "\<forall>c\<in>set (takeWhile is_sep after). is_sep c"
    by (auto dest: set_takeWhileD)
  ultimately show "\<exists>seps rest. drop i s = lbl @ seps @ d # rest \<and> seps \<noteq> [] \<and>
        (\<forall>c\<in>set seps. is_sep c) \<and> is_digit05 d"
    using n d(2) by blast
next
  assume "\<exists>seps rest. drop i s = lbl @ seps @ d # rest \<and> seps \<noteq> [] \<and>
        (\<forall>c\<in>set seps. is_sep c) \<and> is_digit05 d"
  then obtain seps rest where h: "drop i s = lbl @ seps @ d # rest" "seps \<noteq> []"
      "\<forall>c\<in>set seps. is_sep c" "is_digit05 d"
    by blast
  from h(4) have nd: "\<not> is_sep d" by (rule digit05_not_sep)
  from h(3) nd have t: "takeWhile is_sep (seps @ d # rest) = seps"
    by (simp add: takeWhile_append2)
  from h(3) nd have dw: "dropWhile is_sep (seps @ d # rest) = d # rest"
    by (simp add: dropWhile_append2)
  show "match_at (Labelled lbl) s i = Some d"
    using h(2,4) by (simp add: h(1) t dw)
qed



text \<open>
  Claim C10. A digit 0-5 is extracted from a decimal or signed number: "4.5" gives 4 and
  "-3" gives 3, since the point and the minus sign are not word characters; so does every
  text that starts with a digit 0-5 and a point, or with a minus sign, such a digit, and
  then a point or the end.
\<close>
theorem scorer_reduces_decimal_and_signed:
  "extract_numeric_value ''4.5'' = 4
   \<and> extract_numeric_value ''-3'' = 3
   \<and> \<not> is_word CHR ''.'' \<and> \<not> is_word CHR ''-''
   \<and> (is_digit05 d \<longrightarrow>
        extract_numeric_value (d # CHR ''.'' # rest) = digit_value d \<and>
        extract_numeric_value (CHR ''-'' # d # CHR ''.'' # rest) = digit_value d \<and>
        extract_numeric_value [CHR ''-'', d] = digit_value d)"
proof (intro conjI impI)
  show "extract_numeric_value ''4.5'' = 4" by code_simp
  show "extract_numeric_value ''-3'' = 3" by code_simp
  show dot: "\<not> is_word CHR ''.''" by code_simp
  show minus: "\<not> is_word CHR ''-''" by code_simp
  assume d: "is_digit05 d"
  have "leftmost (bare_digit_at (d # CHR ''.'' # rest)) (d # CHR ''.'' # rest) = Some 0"
    using d dot by (simp add: leftmost_Some_iff bare_digit_at_def)
  then show "extract_numeric_value (d # CHR ''.'' # rest) = digit_value d"
    by (simp add: extract_bare)
  have m: "\<not> is_digit05 CHR ''-''" using minus digit05_is_word by blast
  have "leftmost (bare_digit_at (CHR ''-'' # d # CHR ''.'' # rest)) (CHR ''-'' # d # CHR ''.'' # rest) = Some 1"
    using d dot minus m by (simp add: leftmost_Some_iff bare_digit_at_def)
  then show "extract_numeric_value (CHR ''-'' # d # CHR ''.'' # rest) = digit_value d"
    by (simp add: extract_bare)
  have "leftmost (bare_digit_at [CHR ''-'', d]) [CHR ''-'', d] = Some 1"
    using d minus m by (simp add: leftmost_Some_iff bare_digit_at_def)
  then show "extract_numeric_value [CHR ''-'', d] = digit_value d"
    by (simp add: extract_bare)
qed

theorem scorer_reduces_decimal_and_signed_witness:
  "is_digit05 CHR ''2'' \<and>
   extract_numeric_value ''2.75'' = digit_value CHR ''2'' \<and>
   extract_numeric_value ''-2.75'' = digit_value CHR ''2'' \<and>
   extract_numeric_value ''-2'' = digit_value CHR ''2''"
proof -
  have a: "is_digit05 CHR ''2''" by code_simp
  from scorer_reduces_decimal_and_signed [of "CHR ''2''" "''75''"] a
  show ?thesis by simp
qed


section \<open>Properties of the Response Scorer on Unicode text\<close>

lemma uni_digit05_is_word: "uni_is_digit05 c \<Longrightarrow> uni_is_word U c"
  by (auto simp: uni_is_digit05_def uni_is_word_def in_range_def)

lemma uni_digit05_is_digit: "uni_is_digit05 c \<Longrightarrow> uni_is_digit c"
  by (auto simp: uni_is_digit05_def uni_is_digit_def in_range_def)

lemma uni_digit05_not_sep: "uni_is_digit05 c \<Longrightarrow> \<not> uni_is_sep U c"
  by (auto simp: uni_is_digit05_def uni_is_sep_def uni_is_space_def in_range_def)

lemma uni_digit_value_range:
  "uni_is_digit05 c \<Longrightarrow> 0 \<le> uni_digit_value c \<and> uni_digit_value c \<le> 5"
  by (auto simp: uni_is_digit05_def uni_digit_value_def in_range_def)

lemma uni_digit_value_inj: "uni_digit_value c = uni_digit_value d \<Longrightarrow> c = d"
  by (simp add: uni_digit_value_def)

lemma uni_match_bare_iff:
  "uni_match_at U BareDigit s i = Some d \<longleftrightarrow> uni_bare_digit_at U s i \<and> d = s ! i"
  by (auto simp: uni_bare_digit_at_def uni_word_boundary_def uni_digit05_is_word)

lemma uni_match_bare_None:
  "uni_match_at U BareDigit s i = None \<longleftrightarrow> \<not> uni_bare_digit_at U s i"
  using uni_match_bare_iff [of U s i] by (cases "uni_match_at U BareDigit s i") auto

lemma uni_re_search_bare_leftmost:
  "uni_re_search U BareDigit s =
     (case leftmost (uni_bare_digit_at U s) s of None \<Rightarrow> None | Some i \<Rightarrow> Some (s ! i))"
proof -
  have a: "(\<lambda>i. uni_match_at U BareDigit s i \<noteq> None) = uni_bare_digit_at U s"
    using uni_match_bare_None [of U s] by auto
  have b: "find (uni_bare_digit_at U s) [0..<Suc (length s)] =
           find (uni_bare_digit_at U s) [0..<length s]"
    by (simp add: find_app uni_bare_digit_at_def split: option.splits)
  show ?thesis
    unfolding uni_re_search_def a b leftmost_def
    by (auto split: option.splits simp: uni_match_bare_iff dest: find_Some_iff [THEN iffD1]
          simp del: uni_match_at.simps)
qed

lemma uni_match_at_digit05: "uni_match_at U p s i = Some d \<Longrightarrow> uni_is_digit05 d"
  by (cases p) (auto simp: Let_def split: if_splits list.splits)

lemma uni_re_search_digit05: "uni_re_search U p s = Some d \<Longrightarrow> uni_is_digit05 d"
  by (auto simp: uni_re_search_def split: option.splits dest: uni_match_at_digit05)

lemma uni_first_match_range:
  "uni_first_match U ps t = - 1 \<or> (0 \<le> uni_first_match U ps t \<and> uni_first_match U ps t \<le> 5)"
  by (induction ps) (auto split: option.splits dest!: uni_re_search_digit05 uni_digit_value_range)

lemma uni_extract_legal: "legal_value (uni_extract_numeric_value U t)"
  using uni_first_match_range [of U patterns "uni_lower U t"]
  by (simp add: legal_value_def uni_extract_numeric_value_def)

lemma uni_extract_bare:
  assumes "leftmost (uni_bare_digit_at U (uni_lower U s)) (uni_lower U s) = Some i"
  shows "uni_extract_numeric_value U s = uni_digit_value (uni_lower U s ! i)"
proof -
  from assms have "uni_re_search U BareDigit (uni_lower U s) = Some (uni_lower U s ! i)"
    by (simp add: uni_re_search_bare_leftmost)
  then show ?thesis
    by (simp add: uni_extract_numeric_value_def patterns_def)
qed

lemma keeps_class_iff:
  "keeps_class U s i \<longleftrightarrow>
     (\<exists>d. uni_lower_at U s i = [d] \<and> uni_is_word U d = uni_is_word U (s ! i) \<and>
          (uni_is_digit d \<or> uni_is_digit (s ! i) \<longrightarrow> d = s ! i))"
proof (cases "uni_lower_at U s i")
  case Nil
  then show ?thesis by (simp add: keeps_class_def)
next
  case (Cons d ds)
  then show ?thesis
    by (cases ds) (simp_all add: keeps_class_def)
qed

lemma concat_singletons:
  "(\<And>x. x \<in> set xs \<Longrightarrow> f x = [g x]) \<Longrightarrow> concat (map f xs) = map g xs"
  by (induction xs) simp_all

lemma map_nth_fun: "map (\<lambda>i. f (xs ! i)) [0..<length xs] = map f xs"
  by (rule nth_equalityI) simp_all

lemma lower_in_place_related:
  assumes "lowers_in_place U s"
  shows "list_all2 (\<lambda>d c. uni_is_word U d = uni_is_word U c \<and>
                     (uni_is_digit d \<or> uni_is_digit c \<longrightarrow> d = c)) (uni_lower U s) s"
proof -
  define g where "g i = hd (uni_lower_at U s i)" for i
  have k: "uni_lower_at U s i = [g i] \<and> uni_is_word U (g i) = uni_is_word U (s ! i) \<and>
           (uni_is_digit (g i) \<or> uni_is_digit (s ! i) \<longrightarrow> g i = s ! i)"
    if "i < length s" for i
  proof -
    from assms that have "keeps_class U s i"
      by (simp add: lowers_in_place_def list_all_iff)
    then obtain d where d: "uni_lower_at U s i = [d]"
        "uni_is_word U d = uni_is_word U (s ! i)"
        "uni_is_digit d \<or> uni_is_digit (s ! i) \<longrightarrow> d = s ! i"
      unfolding keeps_class_iff by blast
    from d(1) have "g i = d" by (simp add: g_def)
    with d show ?thesis by (simp only: simp_thms)
  qed
  have l: "uni_lower U s = map g [0..<length s]"
    unfolding uni_lower_def by (rule concat_singletons) (simp add: k)
  show ?thesis
    unfolding l list_all2_conv_all_nth
  proof (intro conjI allI impI)
    show "length (map g [0..<length s]) = length s" by simp
  next
    fix i assume "i < length (map g [0..<length s])"
    then have i: "i < length s" by simp
    then have n: "map g [0..<length s] ! i = g i" by simp
    from k [OF i] show "uni_is_word U (map g [0..<length s] ! i) = uni_is_word U (s ! i)"
      unfolding n by (rule conjunct2 [THEN conjunct1])
    from k [OF i]
    show "uni_is_digit (map g [0..<length s] ! i) \<or> uni_is_digit (s ! i) \<Longrightarrow>
          map g [0..<length s] ! i = s ! i"
      unfolding n by (rule conjunct2 [THEN conjunct2, THEN mp])
  qed
qed

lemma related_filter:
  "list_all2 (\<lambda>d c. Q d c \<and> (P d \<or> P c \<longrightarrow> d = c)) xs ys \<Longrightarrow> filter P xs = filter P ys"
proof (induction xs ys rule: list_all2_induct)
  case Nil
  show ?case by simp
next
  case (Cons x xs y ys)
  from Cons.hyps(1) have e: "P x \<or> P y \<longrightarrow> x = y"
    by (rule conjunct2)
  note IH = Cons.IH
  show ?case
  proof (cases "P x \<or> P y")
    case True
    with e have "x = y" by (rule mp)
    with IH show ?thesis by (simp only: filter.simps)
  next
    case False
    then have "\<not> P x" "\<not> P y" by blast+
    with IH show ?thesis by (simp only: filter.simps if_False)
  qed
qed

lemma lower_in_place_digits:
  "lowers_in_place U s \<Longrightarrow> filter uni_is_digit (uni_lower U s) = filter uni_is_digit s"
  by (rule related_filter [OF lower_in_place_related])

lemma lower_in_place_bare:
  assumes "lowers_in_place U s"
  shows "uni_bare_digit_at U (uni_lower U s) i = uni_bare_digit_at U s i"
proof -
  let ?t = "uni_lower U s"
  note r = lower_in_place_related [OF assms]
  then have len: "length ?t = length s"
    by (rule list_all2_lengthD)
  have w: "uni_is_word U (?t ! j) = uni_is_word U (s ! j)" if "j < length s" for j
    using list_all2_nthD2 [OF r that] by (rule conjunct1)
  have dg: "uni_is_digit05 (?t ! j) = uni_is_digit05 (s ! j)" if "j < length s" for j
  proof -
    from list_all2_nthD2 [OF r that]
    have e: "uni_is_digit (?t ! j) \<or> uni_is_digit (s ! j) \<longrightarrow> ?t ! j = s ! j"
      by (rule conjunct2)
    show ?thesis
    proof (cases "uni_is_digit (?t ! j) \<or> uni_is_digit (s ! j)")
      case True
      with e have "?t ! j = s ! j" by (rule mp)
      then show ?thesis by (rule arg_cong)
    next
      case False
      then show ?thesis by (auto dest: uni_digit05_is_digit)
    qed
  qed
  show ?thesis
  proof (cases "i < length s")
    case False
    then show ?thesis by (simp add: uni_bare_digit_at_def len)
  next
    case True
    then consider "Suc i = length s" | "Suc i < length s" by linarith
    then show ?thesis
    proof cases
      case 1
      with True show ?thesis
        by (cases i) (simp_all add: uni_bare_digit_at_def len w dg)
    next
      case 2
      with True show ?thesis
        by (cases i) (simp_all add: uni_bare_digit_at_def len w dg)
    qed
  qed
qed

lemma lower_in_place_leftmost:
  assumes "lowers_in_place U s"
  shows "leftmost (uni_bare_digit_at U (uni_lower U s)) (uni_lower U s) =
         leftmost (uni_bare_digit_at U s) s"
proof -
  have "uni_bare_digit_at U (uni_lower U s) = uni_bare_digit_at U s"
    by (rule ext) (rule lower_in_place_bare [OF assms])
  moreover have "length (uni_lower U s) = length s"
    using lower_in_place_related [OF assms] by (rule list_all2_lengthD)
  ultimately show ?thesis
    by (simp add: leftmost_def)
qed

lemma lower_in_place_bare_digit:
  assumes "lowers_in_place U s" "uni_bare_digit_at U s i"
  shows "uni_lower U s ! i = s ! i"
proof -
  from assms(2) have i: "i < length s" "uni_is_digit (s ! i)"
    by (auto simp: uni_bare_digit_at_def dest: uni_digit05_is_digit)
  from list_all2_nthD2 [OF lower_in_place_related [OF assms(1)] i(1)]
  have "uni_is_digit (uni_lower U s ! i) \<or> uni_is_digit (s ! i) \<longrightarrow> uni_lower U s ! i = s ! i"
    by (rule conjunct2)
  with i(2) show ?thesis by blast
qed

lemma uni_extract_bare_in_place:
  assumes "lowers_in_place U s" "leftmost (uni_bare_digit_at U s) s = Some i"
  shows "uni_extract_numeric_value U s = uni_digit_value (s ! i)"
proof -
  from assms have l: "leftmost (uni_bare_digit_at U (uni_lower U s)) (uni_lower U s) = Some i"
    by (simp add: lower_in_place_leftmost)
  from assms(2) have "uni_bare_digit_at U s i"
    by (simp add: leftmost_Some_iff)
  with assms(1) have "uni_lower U s ! i = s ! i"
    by (rule lower_in_place_bare_digit)
  with uni_extract_bare [OF l] show ?thesis by simp
qed

text \<open>The two models agree on the texts of the first.\<close>

lemma excerpt_word [simp]: "uni_is_word unicode_excerpt (code_point c) = is_word c"
  using code_point_less [of c]
  by (auto simp: uni_is_word_def unicode_excerpt_def is_word_def Let_def in_range_def)

lemma excerpt_space [simp]: "uni_is_space unicode_excerpt (code_point c) = is_space c"
  using code_point_less [of c]
  by (auto simp: uni_is_space_def unicode_excerpt_def is_space_def Let_def in_range_def)

lemma excerpt_digit05 [simp]: "uni_is_digit05 (code_point c) = is_digit05 c"
  by (simp add: uni_is_digit05_def is_digit05_def)

lemma code_point_inj [simp]: "code_point c = code_point d \<longleftrightarrow> c = d"
  by (simp add: code_point_def)

lemma excerpt_sep [simp]: "uni_is_sep unicode_excerpt (code_point c) = is_sep c"
proof -
  have "code_point CHR '':'' = 58" by (simp add: code_point_def)
  then have "(code_point c = 58) = (c = CHR '':'')"
    by (metis code_point_inj)
  then show ?thesis
    by (simp add: uni_is_sep_def is_sep_def)
qed

lemma excerpt_lower_at:
  assumes "i < length s"
  shows "uni_lower_at unicode_excerpt (code_points s) i = [code_point (lower_char (s ! i))]"
proof -
  from assms have n: "code_points s ! i = code_point (s ! i)"
    by (simp add: code_points_def)
  show ?thesis
    using code_point_less [of "s ! i"]
    by (auto simp: uni_lower_at_def n unicode_excerpt_def code_point_lower in_range_def Let_def)
qed

lemma excerpt_lower: "uni_lower unicode_excerpt (code_points s) = code_points (str_lower s)"
proof -
  have "uni_lower unicode_excerpt (code_points s) =
        map (\<lambda>i. code_point (lower_char (s ! i))) [0..<length s]"
    unfolding uni_lower_def
    by (simp add: code_points_def) (rule concat_singletons, simp add: excerpt_lower_at [unfolded code_points_def])
  also have "\<dots> = map (\<lambda>c. code_point (lower_char c)) s"
    by (rule map_nth_fun)
  finally show ?thesis
    by (simp add: code_points_def str_lower_def)
qed

lemma latin1_lowers_in_place: "lowers_in_place unicode_excerpt (code_points s)"
proof -
  have "keeps_class unicode_excerpt (code_points s) i" if "i < length s" for i
  proof -
    from that have n: "code_points s ! i = code_point (s ! i)"
      by (simp add: code_points_def)
    have d: "uni_is_digit (code_point c) = is_digit c" for c
      by (simp add: uni_is_digit_def is_digit_def)
    have e: "is_digit (lower_char c) \<or> is_digit c \<Longrightarrow> lower_char c = c" for c
      using code_point_less [of c] code_point_lower [of c]
      by (auto simp: is_digit_def lower_char_def Let_def in_range_def)
    have e': "uni_is_digit (code_point (lower_char c)) \<or> uni_is_digit (code_point c) \<longrightarrow>
              code_point (lower_char c) = code_point c" for c
      unfolding d using e [of c] by (intro impI) (rule arg_cong)
    have w: "uni_is_word unicode_excerpt (code_point (lower_char c)) =
             uni_is_word unicode_excerpt (code_point c)" for c
      by simp
    show ?thesis
      unfolding keeps_class_iff excerpt_lower_at [OF that] n
      by (intro exI [of _ "code_point (lower_char (s ! i))"] conjI refl w e')
  qed
  then show ?thesis
    by (simp add: lowers_in_place_def list_all_iff code_points_def)
qed

lemma excerpt_digit_value [simp]: "uni_digit_value (code_point c) = digit_value c"
  by (simp add: uni_digit_value_def digit_value_def)

lemma excerpt_word_boundary:
  "uni_word_boundary unicode_excerpt (code_points t) i = word_boundary t i"
proof (cases "i < length t")
  case True
  then show ?thesis
    by (cases i) (simp_all add: uni_word_boundary_def word_boundary_def code_points_def)
next
  case False
  then show ?thesis
    by (cases "i = length t"; cases i)
       (simp_all add: uni_word_boundary_def word_boundary_def code_points_def)
qed

lemma excerpt_group:
  "(case map code_point xs of [] \<Rightarrow> None | d # _ \<Rightarrow> if uni_is_digit05 d then Some d else None) =
   map_option code_point (case xs of [] \<Rightarrow> None | d # _ \<Rightarrow> if is_digit05 d then Some d else None)"
  by (cases xs) simp_all

lemma excerpt_match_at:
  "uni_match_at unicode_excerpt p (code_points t) i = map_option code_point (match_at p t i)"
proof (cases p)
  case BareDigit
  show ?thesis
  proof (cases "i < length t")
    case True
    then have "code_points t ! i = code_point (t ! i)" "length (code_points t) = length t"
      by (simp_all add: code_points_def)
    with True show ?thesis
      by (simp add: BareDigit excerpt_word_boundary)
  next
    case False
    then show ?thesis
      by (simp add: BareDigit code_points_def)
  qed
next
  case (Labelled lbl)
  have tk: "(take (length lbl) (drop i (code_points t)) = code_points lbl) =
            (take (length lbl) (drop i t) = lbl)"
  proof -
    have "inj code_point"
      by (simp add: inj_on_def)
    then have "(map code_point (take (length lbl) (drop i t)) = map code_point lbl) =
               (take (length lbl) (drop i t) = lbl)"
      by (rule inj_map_eq_map)
    then show ?thesis
      by (simp only: code_points_def drop_map take_map)
  qed
  have sp: "uni_is_sep unicode_excerpt \<circ> code_point = is_sep"
    by (rule ext) simp
  have tw: "takeWhile (uni_is_sep unicode_excerpt) (map code_point xs) =
            map code_point (takeWhile is_sep xs)" for xs
    by (simp add: takeWhile_map sp)
  have dw: "dropWhile (uni_is_sep unicode_excerpt) (map code_point xs) =
            map code_point (dropWhile is_sep xs)" for xs
    by (simp add: dropWhile_map sp)
  have dr: "drop (length lbl) (drop i (code_points t)) =
            map code_point (drop (length lbl) (drop i t))"
    by (simp only: code_points_def drop_map)
  show ?thesis
    unfolding Labelled uni_match_at.simps match_at.simps Let_def tk dr tw dw excerpt_group
    by simp
qed

lemma excerpt_re_search:
  "uni_re_search unicode_excerpt p (code_points t) = map_option code_point (re_search p t)"
proof -
  have "length (code_points t) = length t"
    by (simp add: code_points_def)
  then show ?thesis
    unfolding uni_re_search_def re_search_def excerpt_match_at
    by (simp split: option.splits)
qed

lemma excerpt_first_match:
  "uni_first_match unicode_excerpt ps (code_points t) = first_match ps t"
  by (induction ps) (simp_all add: excerpt_re_search split: option.splits)

lemma excerpt_agrees:
  "uni_extract_numeric_value unicode_excerpt (code_points s) = extract_numeric_value s"
  by (simp add: uni_extract_numeric_value_def extract_numeric_value_def excerpt_lower
        excerpt_first_match)

lemma uni_only_digit_is_it:
  assumes "filter uni_is_digit s = [d]" "i < length s" "uni_is_digit (s ! i)"
  shows "s ! i = d"
proof -
  from assms(2,3) have "s ! i \<in> set (filter uni_is_digit s)" by simp
  with assms(1) show ?thesis by simp
qed

lemma uni_extract_only_digit:
  assumes "filter uni_is_digit (uni_lower U s) = [d]" "uni_bare_digit_at U (uni_lower U s) k"
  shows "uni_extract_numeric_value U s = uni_digit_value d"
proof -
  let ?t = "uni_lower U s"
  from assms(2) have "\<not> (\<forall>i<length ?t. \<not> uni_bare_digit_at U ?t i)"
    by (auto simp: uni_bare_digit_at_def)
  then obtain i where i: "leftmost (uni_bare_digit_at U ?t) ?t = Some i"
    using leftmost_None_iff [of "uni_bare_digit_at U ?t" ?t]
    by (cases "leftmost (uni_bare_digit_at U ?t) ?t") auto
  then have "i < length ?t" "uni_is_digit (?t ! i)"
    by (auto simp: leftmost_Some_iff uni_bare_digit_at_def uni_digit05_is_digit)
  with assms(1) have "?t ! i = d" by (auto intro: uni_only_digit_is_it)
  with i show ?thesis by (simp add: uni_extract_bare)
qed

text \<open>
  Claim C1, as stated, fails. The patterns are searched in the lower-case form of the
  text, and \<open>str.lower\<close> can put a code point that is not a word character next to a
  digit. In the text that is U+0130 followed by "5 4 rating: 5", the leftmost digit 0-5
  between word boundaries is the 4 (the first 5 follows a letter), the label introduces a
  5, and the scorer returns 5: in the lower-case form the first 5 follows U+0307.
\<close>
theorem dotted_capital_changes_the_match:
  "leftmost (uni_bare_digit_at unicode_excerpt dotted_text) dotted_text = Some 3 \<and>
   uni_digit_value (dotted_text ! 3) = 4 \<and>
   uni_match_at unicode_excerpt (Labelled ''rating'') dotted_text 5 = Some 53 \<and>
   uni_match_at unicode_excerpt (Labelled ''rating'') (uni_lower unicode_excerpt dotted_text) 6 =
     Some 53 \<and>
   uni_digit_value 53 = 5 \<and>
   uni_extract_numeric_value unicode_excerpt dotted_text = 5"
  by code_simp

text \<open>
  Claim C1, amended. When the lower-case form of a text has a bare digit 0-5 (word
  boundaries on both sides) and, somewhere, a label \<open>rating\<close>, \<open>score\<close> or \<open>value\<close>
  that introduces a different digit, the scorer returns the leftmost bare digit of the
  lower-case form and not the labelled one. When \<open>str.lower\<close> changes the text in place,
  that digit is the leftmost bare digit of the text itself. The text
  "I'd say 3, though my rating: 5" gives 3.
\<close>
theorem scorer_bare_digit_precedes_label:
  "(leftmost (uni_bare_digit_at U (uni_lower U s)) (uni_lower U s) = Some i \<and>
    lbl \<in> set labels \<and>
    uni_match_at U (Labelled lbl) (uni_lower U s) j = Some e \<and> e \<noteq> uni_lower U s ! i
    \<longrightarrow> uni_extract_numeric_value U s = uni_digit_value (uni_lower U s ! i) \<and>
        uni_extract_numeric_value U s \<noteq> uni_digit_value e)
   \<and> (lowers_in_place U s \<and> leftmost (uni_bare_digit_at U s) s = Some i \<and>
       lbl \<in> set labels \<and>
       uni_match_at U (Labelled lbl) (uni_lower U s) j = Some e \<and> e \<noteq> s ! i
       \<longrightarrow> uni_extract_numeric_value U s = uni_digit_value (s ! i) \<and>
           uni_extract_numeric_value U s \<noteq> uni_digit_value e)
   \<and> uni_extract_numeric_value unicode_excerpt
        (code_points ''I'd say 3, though my rating: 5'') = 3
   \<and> extract_numeric_value ''I'd say 3, though my rating: 5'' = 3"
proof (intro conjI impI)
  assume h: "leftmost (uni_bare_digit_at U (uni_lower U s)) (uni_lower U s) = Some i \<and>
    lbl \<in> set labels \<and>
    uni_match_at U (Labelled lbl) (uni_lower U s) j = Some e \<and> e \<noteq> uni_lower U s ! i"
  then show v: "uni_extract_numeric_value U s = uni_digit_value (uni_lower U s ! i)"
    by (simp add: uni_extract_bare)
  from h have "uni_digit_value e \<noteq> uni_digit_value (uni_lower U s ! i)"
    using uni_digit_value_inj by blast
  with v show "uni_extract_numeric_value U s \<noteq> uni_digit_value e" by simp
next
  assume h: "lowers_in_place U s \<and> leftmost (uni_bare_digit_at U s) s = Some i \<and>
       lbl \<in> set labels \<and>
       uni_match_at U (Labelled lbl) (uni_lower U s) j = Some e \<and> e \<noteq> s ! i"
  then show v: "uni_extract_numeric_value U s = uni_digit_value (s ! i)"
    by (simp add: uni_extract_bare_in_place)
  from h have "uni_digit_value e \<noteq> uni_digit_value (s ! i)"
    using uni_digit_value_inj by blast
  with v show "uni_extract_numeric_value U s \<noteq> uni_digit_value e" by simp
next
  show e: "extract_numeric_value ''I'd say 3, though my rating: 5'' = 3"
    by code_simp
  then show "uni_extract_numeric_value unicode_excerpt
        (code_points ''I'd say 3, though my rating: 5'') = 3"
    by (simp only: excerpt_agrees)
qed

theorem scorer_bare_digit_precedes_label_witness:
  "leftmost (uni_bare_digit_at unicode_excerpt
       (uni_lower unicode_excerpt (code_points ''I'd say 3, though my rating: 5'')))
     (uni_lower unicode_excerpt (code_points ''I'd say 3, though my rating: 5'')) = Some 8 \<and>
   lowers_in_place unicode_excerpt (code_points ''I'd say 3, though my rating: 5'') \<and>
   leftmost (uni_bare_digit_at unicode_excerpt (code_points ''I'd say 3, though my rating: 5''))
     (code_points ''I'd say 3, though my rating: 5'') = Some 8 \<and>
   ''rating'' \<in> set labels \<and>
   uni_match_at unicode_excerpt (Labelled ''rating'')
     (uni_lower unicode_excerpt (code_points ''I'd say 3, though my rating: 5'')) 21 = Some 53 \<and>
   53 \<noteq> uni_lower unicode_excerpt (code_points ''I'd say 3, though my rating: 5'') ! 8 \<and>
   53 \<noteq> code_points ''I'd say 3, though my rating: 5'' ! 8 \<and>
   uni_extract_numeric_value unicode_excerpt (code_points ''I'd say 3, though my rating: 5'') =
     uni_digit_value (uni_lower unicode_excerpt (code_points ''I'd say 3, though my rating: 5'') ! 8) \<and>
   uni_extract_numeric_value unicode_excerpt (code_points ''I'd say 3, though my rating: 5'') =
     uni_digit_value (code_points ''I'd say 3, though my rating: 5'' ! 8) \<and>
   uni_extract_numeric_value unicode_excerpt (code_points ''I'd say 3, though my rating: 5'') \<noteq>
     uni_digit_value 53"
proof -
  let ?s = "code_points ''I'd say 3, though my rating: 5''"
  let ?t = "uni_lower unicode_excerpt ?s"
  have a: "leftmost (uni_bare_digit_at unicode_excerpt ?t) ?t = Some 8"
    by code_simp
  have p: "lowers_in_place unicode_excerpt ?s"
    by code_simp
  have a': "leftmost (uni_bare_digit_at unicode_excerpt ?s) ?s = Some 8"
    by code_simp
  have b: "''rating'' \<in> set labels"
    by (simp add: labels_def)
  have c: "uni_match_at unicode_excerpt (Labelled ''rating'') ?t 21 = Some 53"
    by code_simp
  have d: "53 \<noteq> ?t ! 8"
    by code_simp
  have d': "53 \<noteq> ?s ! 8"
    by code_simp
  note t = scorer_bare_digit_precedes_label [of unicode_excerpt ?s 8 "''rating''" 21 53]
  have e: "uni_extract_numeric_value unicode_excerpt ?s = uni_digit_value (?t ! 8) \<and>
           uni_extract_numeric_value unicode_excerpt ?s \<noteq> uni_digit_value 53"
    by (rule t [THEN conjunct1, THEN mp]) (intro conjI a b c d)
  have e': "uni_extract_numeric_value unicode_excerpt ?s = uni_digit_value (?s ! 8) \<and>
           uni_extract_numeric_value unicode_excerpt ?s \<noteq> uni_digit_value 53"
    by (rule t [THEN conjunct2, THEN conjunct1, THEN mp]) (intro conjI p a' b c d')
  show ?thesis
    by (intro conjI a p a' b c d d' e [THEN conjunct1] e' [THEN conjunct1] e [THEN conjunct2])
qed

text \<open>
  Claim C2, as stated, fails: in the text "x3" the only digit is 3, its neighbours are not
  digits, and the scorer returns -1, because the letter before the digit is a word
  character and \<open>\b\<close> does not hold there.
\<close>
theorem lone_digit_not_returned:
  "leftmost (lone_digit_at ''x3'') ''x3'' = Some 1 \<and>
   filter is_digit ''x3'' = ''3'' \<and>
   digit_value (''x3'' ! 1) = 3 \<and>
   extract_numeric_value ''x3'' = - 1"
  by code_simp

text \<open>
  In the text that is U+0130 followed by "3 4", the leftmost bare digit of the text is the
  4 and the scorer returns 3, the leftmost bare digit of the lower-case form.
\<close>

lemma dotted_capital_short:
  "leftmost (uni_bare_digit_at unicode_excerpt dotted_short_text) dotted_short_text = Some 3 \<and>
   uni_digit_value (dotted_short_text ! 3) = 4 \<and>
   lowers_in_place unicode_excerpt dotted_short_text = False \<and>
   uni_lower unicode_excerpt dotted_short_text = [105, 775, 51, 32, 52] \<and>
   uni_extract_numeric_value unicode_excerpt dotted_short_text = 3"
  by code_simp

text \<open>
  Claim C2, amended. When the lower-case form of a text has a digit 0-5 whose neighbours,
  where it has any, are not word characters (letters, digits, underscore), the scorer
  returns the leftmost such digit; and when the lower-case form has exactly one digit and
  that digit is such a digit, the scorer returns it. When \<open>str.lower\<close> changes the text
  in place, both hold of the text itself.
\<close>
theorem scorer_returns_leftmost_bare_digit:
  "(leftmost (uni_bare_digit_at U (uni_lower U s)) (uni_lower U s) = Some i
    \<longrightarrow> uni_extract_numeric_value U s = uni_digit_value (uni_lower U s ! i))
   \<and> (filter uni_is_digit (uni_lower U s) = [d] \<and> uni_bare_digit_at U (uni_lower U s) k
       \<longrightarrow> uni_extract_numeric_value U s = uni_digit_value d)
   \<and> (lowers_in_place U s \<and> leftmost (uni_bare_digit_at U s) s = Some i
       \<longrightarrow> uni_extract_numeric_value U s = uni_digit_value (s ! i))
   \<and> (lowers_in_place U s \<and> filter uni_is_digit s = [d] \<and> uni_bare_digit_at U s k
       \<longrightarrow> uni_extract_numeric_value U s = uni_digit_value d)"
proof (intro conjI impI)
  assume "leftmost (uni_bare_digit_at U (uni_lower U s)) (uni_lower U s) = Some i"
  then show "uni_extract_numeric_value U s = uni_digit_value (uni_lower U s ! i)"
    by (rule uni_extract_bare)
next
  assume h: "filter uni_is_digit (uni_lower U s) = [d] \<and> uni_bare_digit_at U (uni_lower U s) k"
  show "uni_extract_numeric_value U s = uni_digit_value d"
    by (rule uni_extract_only_digit [OF h [THEN conjunct1] h [THEN conjunct2]])
next
  assume "lowers_in_place U s \<and> leftmost (uni_bare_digit_at U s) s = Some i"
  then show "uni_extract_numeric_value U s = uni_digit_value (s ! i)"
    by (simp add: uni_extract_bare_in_place)
next
  assume h: "lowers_in_place U s \<and> filter uni_is_digit s = [d] \<and> uni_bare_digit_at U s k"
  then have "filter uni_is_digit (uni_lower U s) = [d]"
    by (simp add: lower_in_place_digits)
  moreover from h have "uni_bare_digit_at U (uni_lower U s) k"
    by (simp add: lower_in_place_bare)
  ultimately show "uni_extract_numeric_value U s = uni_digit_value d"
    by (rule uni_extract_only_digit)
qed

theorem scorer_returns_leftmost_bare_digit_witness:
  "leftmost (uni_bare_digit_at unicode_excerpt (uni_lower unicode_excerpt dotted_short_text))
     (uni_lower unicode_excerpt dotted_short_text) = Some 2 \<and>
   uni_extract_numeric_value unicode_excerpt dotted_short_text =
     uni_digit_value (uni_lower unicode_excerpt dotted_short_text ! 2) \<and>
   filter uni_is_digit (uni_lower unicode_excerpt (304 # code_points '', I rate it 4.'')) = [52] \<and>
   uni_bare_digit_at unicode_excerpt
     (uni_lower unicode_excerpt (304 # code_points '', I rate it 4.'')) 14 \<and>
   uni_extract_numeric_value unicode_excerpt (304 # code_points '', I rate it 4.'') =
     uni_digit_value 52 \<and>
   lowers_in_place unicode_excerpt (code_points ''Q3: 5, or 2'') \<and>
   leftmost (uni_bare_digit_at unicode_excerpt (code_points ''Q3: 5, or 2''))
     (code_points ''Q3: 5, or 2'') = Some 4 \<and>
   uni_extract_numeric_value unicode_excerpt (code_points ''Q3: 5, or 2'') =
     uni_digit_value (code_points ''Q3: 5, or 2'' ! 4) \<and>
   lowers_in_place unicode_excerpt (code_points ''I rate it 4.'') \<and>
   filter uni_is_digit (code_points ''I rate it 4.'') = [52] \<and>
   uni_bare_digit_at unicode_excerpt (code_points ''I rate it 4.'') 10 \<and>
   uni_extract_numeric_value unicode_excerpt (code_points ''I rate it 4.'') = uni_digit_value 52"
proof -
  let ?q = "code_points ''Q3: 5, or 2''"
  let ?r = "code_points ''I rate it 4.''"
  let ?x = "304 # code_points '', I rate it 4.''"
  have a: "leftmost (uni_bare_digit_at unicode_excerpt (uni_lower unicode_excerpt dotted_short_text))
     (uni_lower unicode_excerpt dotted_short_text) = Some 2"
    by code_simp
  have b1: "filter uni_is_digit (uni_lower unicode_excerpt ?x) = [52]"
    by code_simp
  have b2: "uni_bare_digit_at unicode_excerpt (uni_lower unicode_excerpt ?x) 14"
    by code_simp
  have c1: "lowers_in_place unicode_excerpt ?q"
    by code_simp
  have c2: "leftmost (uni_bare_digit_at unicode_excerpt ?q) ?q = Some 4"
    by code_simp
  have d1: "lowers_in_place unicode_excerpt ?r"
    by code_simp
  have d2: "filter uni_is_digit ?r = [52]"
    by code_simp
  have d3: "uni_bare_digit_at unicode_excerpt ?r 10"
    by code_simp
  have ra: "uni_extract_numeric_value unicode_excerpt dotted_short_text =
     uni_digit_value (uni_lower unicode_excerpt dotted_short_text ! 2)"
    by (rule scorer_returns_leftmost_bare_digit [of unicode_excerpt dotted_short_text 2,
          THEN conjunct1, THEN mp, OF a])
  have rb: "uni_extract_numeric_value unicode_excerpt ?x = uni_digit_value 52"
    by (rule scorer_returns_leftmost_bare_digit [of unicode_excerpt ?x _ 52 14,
          THEN conjunct2, THEN conjunct1, THEN mp, OF conjI [OF b1 b2]])
  have rc: "uni_extract_numeric_value unicode_excerpt ?q = uni_digit_value (?q ! 4)"
    by (rule scorer_returns_leftmost_bare_digit [of unicode_excerpt ?q 4,
          THEN conjunct2, THEN conjunct2, THEN conjunct1, THEN mp, OF conjI [OF c1 c2]])
  have rd: "uni_extract_numeric_value unicode_excerpt ?r = uni_digit_value 52"
    by (rule scorer_returns_leftmost_bare_digit [of unicode_excerpt ?r _ 52 10,
          THEN conjunct2, THEN conjunct2, THEN conjunct2, THEN mp,
          OF conjI [OF d1 conjI [OF d2 d3]]])
  show ?thesis
    by (intro conjI a ra b1 b2 rb c1 c2 rc d1 d2 d3 rd)
qed


section \<open>Properties of the Query Orchestrator\<close>

lemma extract_legal: "legal_value (extract_numeric_value s)"
  using first_match_range [of patterns "str_lower s"]
  by (simp add: legal_value_def extract_numeric_value_def)

lemma try_query_legal:
  "try_query now llm_name client q messages = Inr r \<Longrightarrow> legal_value (extracted_value r)"
  by (auto simp: try_query_def extract_legal split: sum.splits content.splits)

lemma try_query_passes:
  "passes_handler (try_query now llm_name client q messages) = passes_handler (client messages)"
proof (cases "client messages")
  case (Inl e)
  then show ?thesis by (cases e) (simp_all add: try_query_def)
next
  case (Inr c)
  then show ?thesis by (cases c) (simp_all add: try_query_def)
qed

lemma query_llm_returns:
  assumes "\<not> passes_handler (client (create_prompt self q))"
  shows "\<exists>r. query_llm self now llm_name client q = Inr r"
proof -
  have "passes_handler (try_query now llm_name client q (create_prompt self q)) =
        passes_handler (client (create_prompt self q))"
    by (rule try_query_passes)
  with assms have "\<not> passes_handler (try_query now llm_name client q (create_prompt self q))"
    by simp
  then show ?thesis
    by (cases "try_query now llm_name client q (create_prompt self q)")
       (auto simp: query_llm_def Let_def split: raised.splits)
qed

lemma query_llm_legal:
  "query_llm self now llm_name client q = Inr r \<Longrightarrow> legal_value (extracted_value r)"
  by (auto simp: query_llm_def Let_def legal_value_def split: sum.splits raised.splits
        dest: try_query_legal)





text \<open>
  Claim C4. The scorer returns an integer in [0,5] or -1 for every text, in either model,
  and every result that \<open>query_llm\<close> returns, from either path, has such an extracted
  value; it returns one whenever the client returns or raises an instance of \<open>Exception\<close>.
\<close>

theorem extracted_value_legal:
  "legal_value (extract_numeric_value s)
   \<and> legal_value (uni_extract_numeric_value U t)
   \<and> (query_llm self now llm_name client q = Inr r \<longrightarrow> legal_value (extracted_value r))
   \<and> (\<not> passes_handler (client (create_prompt self q)) \<longrightarrow>
        (\<exists>r. query_llm self now llm_name client q = Inr r \<and> legal_value (extracted_value r)))"
  using extract_legal uni_extract_legal query_llm_returns query_llm_legal by blast

theorem extracted_value_legal_witness:
  "legal_value (extract_numeric_value ''somewhat, 4 of 5'') \<and>
   legal_value (uni_extract_numeric_value unicode_excerpt dotted_text) \<and>
   query_llm sample_analyzer ''2025-01-01T10:00:01'' ''model-a'' client_four sample_q1 =
     Inr (hd sample_results) \<and>
   legal_value (extracted_value (hd sample_results)) \<and>
   \<not> passes_handler (client_timeout (create_prompt sample_analyzer sample_q1)) \<and>
   (\<exists>r. query_llm sample_analyzer ''2025-01-01T10:00:02'' ''model-b'' client_timeout sample_q1 = Inr r \<and>
        legal_value (extracted_value r))"
proof -
  note t1 = extracted_value_legal [of "''somewhat, 4 of 5''" unicode_excerpt dotted_text
          sample_analyzer "''2025-01-01T10:00:01''"
          "''model-a''" client_four sample_q1 "hd sample_results"]
  note t2 = extracted_value_legal [of "''somewhat, 4 of 5''" unicode_excerpt dotted_text
          sample_analyzer "''2025-01-01T10:00:02''"
          "''model-b''" client_timeout sample_q1]
  have a: "query_llm sample_analyzer ''2025-01-01T10:00:01'' ''model-a'' client_four sample_q1 =
     Inr (hd sample_results)"
    by code_simp
  have b: "\<not> passes_handler (client_timeout (create_prompt sample_analyzer sample_q1))"
    by (simp add: client_timeout_def)
  show ?thesis
    using t1 [THEN conjunct1] t1 [THEN conjunct2, THEN conjunct1] a
      t1 [THEN conjunct2, THEN conjunct2, THEN conjunct1, THEN mp, OF a] b
      t2 [THEN conjunct2, THEN conjunct2, THEN conjunct2, THEN mp, OF b]
    by (intro conjI)
qed

lemma sample_run: "analyze_all sample_analyzer sample_clock None = Inr sample_results"
  by code_simp

text \<open>The report of the sample run: 8 for the first model, 0 for the second.\<close>

lemma sample_report:
  "report_statistics sample_results =
     Inr \<lparr> stats_llms = [''model-a'', ''model-b''],
           stats_foundations = [''Harm-Care''],
           by_llm_foundation = [(''model-a'', [(''Harm-Care'', 8)]), (''model-b'', [(''Harm-Care'', 0)])],
           total_by_foundation = [(''Harm-Care'', 8)] \<rparr>"
  by code_simp





section \<open>Properties of the Result Aggregator\<close>

lemma int64_id: "- (2 ^ 63) \<le> x \<Longrightarrow> x < 2 ^ 63 \<Longrightarrow> int64 x = x"
  by (simp add: int64_def)

lemma int64_add_left: "int64 (int64 x + y) = int64 (x + y)"
proof -
  have "(((x + 2 ^ 63) mod 2 ^ 64 - 2 ^ 63) + y + 2 ^ 63) mod (2 ^ 64 :: int)
      = ((x + 2 ^ 63) mod 2 ^ 64 + y) mod 2 ^ 64"
    by (simp add: algebra_simps)
  also have "\<dots> = ((x + 2 ^ 63) + y) mod 2 ^ 64"
    by (rule mod_add_left_eq)
  finally show ?thesis
    by (simp add: int64_def algebra_simps)
qed

lemma foldl_int64:
  "foldl (\<lambda>acc v. int64 (acc + v)) (int64 a) xs = int64 (a + sum_list xs)"
proof (induction xs arbitrary: a)
  case Nil
  then show ?case by simp
next
  case (Cons x xs)
  have "foldl (\<lambda>acc v. int64 (acc + v)) (int64 a) (x # xs)
      = foldl (\<lambda>acc v. int64 (acc + v)) (int64 (int64 a + x)) xs"
    by simp
  also have "\<dots> = int64 (int64 a + x + sum_list xs)"
    by (rule Cons.IH)
  also have "\<dots> = int64 (a + (x + sum_list xs))"
    using int64_add_left [of a "x + sum_list xs"] by (simp add: add.assoc)
  finally show ?case by simp
qed

lemma series_sum_eq: "series_sum xs = int64 (sum_list xs)"
proof -
  have "int64 0 = 0" by (simp add: int64_def)
  with foldl_int64 [of 0 xs] show ?thesis by (simp add: series_sum_def)
qed

lemma sum_list_bounds:
  "(\<forall>v\<in>set vs. 0 \<le> v \<and> v \<le> (5::int)) \<Longrightarrow> 0 \<le> sum_list vs \<and> sum_list vs \<le> 5 * int (length vs)"
  by (induction vs) auto

lemma series_sum_exact:
  assumes "\<forall>v\<in>set vs. 0 \<le> v \<and> v \<le> (5::int)" "length vs < 2 ^ 60"
  shows "series_sum vs = sum_list vs"
proof -
  from assms(1) have b: "0 \<le> sum_list vs" "sum_list vs \<le> 5 * int (length vs)"
    using sum_list_bounds by blast+
  from assms(2) have "int (length vs) < 2 ^ 60"
    by (metis of_nat_less_iff of_nat_numeral of_nat_power)
  with b have "sum_list vs < 2 ^ 63" by simp
  with b(1) show ?thesis
    by (simp add: series_sum_eq int64_id)
qed

lemma series_sum_filter_perm:
  assumes "mset xs = mset ys"
  shows "series_sum (map f (filter P xs)) = series_sum (map f (filter P ys))"
proof -
  from assms have "mset (map f (filter P xs)) = mset (map f (filter P ys))"
    by (metis mset_filter mset_map)
  then have "sum_list (map f (filter P xs)) = sum_list (map f (filter P ys))"
    by (metis sum_mset_sum_list)
  then show ?thesis by (simp add: series_sum_eq)
qed

lemma sorted_unique_set_eq: "set xs = set ys \<Longrightarrow> sorted_unique xs = sorted_unique ys"
  unfolding sorted_unique_def
  by (intro sorted_distinct_set_unique) simp_all

lemma set_sorted_unique [simp]: "set (sorted_unique xs) = set xs"
  by (simp add: sorted_unique_def)

lemma map_of_tabulate:
  "map_of (map (\<lambda>k. (k, g k)) ks) k = (if k \<in> set ks then Some (g k) else None)"
  by (induction ks) auto

lemma matching_nested:
  "filter (\<lambda>r. moral_foundation r = f) (filter (\<lambda>r. llm r = m) (filter (\<lambda>r. 0 \<le> extracted_value r) rows))
     = matching m f rows"
  by (simp add: matching_def conj_ac cong: filter_cong)

lemma report_statistics_nonempty:
  "rows \<noteq> [] \<Longrightarrow> report_statistics rows =
     Inr (calculate_statistics \<lparr> df = rows, valid_df = filter (\<lambda>r. 0 \<le> extracted_value r) rows \<rparr>)"
  by (simp add: report_statistics_def load_data_def column_check_def bind_err_def)

lemma report_statistics_empty:
  "report_statistics [] = Inl (PyError ''KeyError'' (CHR 0x27 # ''extracted_value'' @ [CHR 0x27]))"
  by (simp add: report_statistics_def load_data_def column_check_def bind_err_def)

lemma table_sum_calculate:
  "table_sum (calculate_statistics \<lparr> df = rows, valid_df = filter (\<lambda>r. 0 \<le> extracted_value r) rows \<rparr>) m f =
     (if m \<in> llm ` set rows \<and> f \<in> moral_foundation ` {r \<in> set rows. 0 \<le> extracted_value r}
      then Some (series_sum (map extracted_value (matching m f rows))) else None)"
  unfolding table_sum_def calculate_statistics_def Let_def
  by (simp add: map_of_tabulate matching_nested [simplified] matching_def conj_ac cong: filter_cong)

lemma generate_summary_empty:
  "generate_summary [] = Inl (PyError ''KeyError'' (CHR 0x27 # ''llm'' @ [CHR 0x27]))"
  by (simp add: generate_summary_def column_check_def bind_err_def)

lemma generate_summary_sums:
  assumes "generate_summary rows = Inr blocks" "b \<in> set blocks" "(f, v) \<in> set (block_sums b)"
  shows "v = series_sum (map extracted_value (matching (block_llm b) f rows))"
  using assms
  unfolding generate_summary_def column_check_def bind_err_def Let_def
  by (auto simp: matching_def conj_ac split: if_splits cong: filter_cong)

lemma report_statistics_perm:
  assumes "mset rows' = mset rows"
  shows "report_statistics rows' = report_statistics rows"
proof (cases "rows = []")
  case True
  with assms show ?thesis by simp
next
  case False
  with assms have ne: "rows' \<noteq> []" by auto
  have sums: "series_sum (map extracted_value (filter P rows')) =
              series_sum (map extracted_value (filter P rows))" for P
    using assms by (rule series_sum_filter_perm)
  from assms have s: "set rows' = set rows"
    by (rule mset_eq_setD)
  have ms: "sorted_unique (map llm rows') = sorted_unique (map llm rows)"
    by (rule sorted_unique_set_eq) (simp add: s)
  have fs: "sorted_unique (map moral_foundation (filter (\<lambda>r. 0 \<le> extracted_value r) rows')) =
            sorted_unique (map moral_foundation (filter (\<lambda>r. 0 \<le> extracted_value r) rows))"
    by (rule sorted_unique_set_eq) (simp add: s)
  show ?thesis
    unfolding report_statistics_nonempty [OF False] report_statistics_nonempty [OF ne]
    by (simp add: calculate_statistics_def Let_def ms fs sums)
qed

lemma generate_summary_perm:
  assumes "mset rows' = mset rows"
  shows "generate_summary rows' = generate_summary rows"
proof (cases "rows = []")
  case True
  with assms show ?thesis by simp
next
  case False
  with assms have ne: "rows' \<noteq> []" by auto
  have sums: "series_sum (map extracted_value (filter P rows')) =
              series_sum (map extracted_value (filter P rows))" for P
    using assms by (rule series_sum_filter_perm)
  from assms have s: "set rows' = set rows"
    by (rule mset_eq_setD)
  have ms: "sorted_unique (map llm rows') = sorted_unique (map llm rows)"
    by (rule sorted_unique_set_eq) (simp add: s)
  have fs: "sorted_unique (map moral_foundation (filter P rows')) =
            sorted_unique (map moral_foundation (filter P rows))" for P
    by (rule sorted_unique_set_eq) (simp add: s)
  have len: "length (filter P rows') = length (filter P rows)" for P
    using assms by (metis mset_filter size_mset)
  have emp: "(filter P rows' = []) = (filter P rows = [])" for P
    by (simp add: filter_empty_conv s)
  show ?thesis
    using False ne
    by (simp add: generate_summary_def column_check_def bind_err_def Let_def ms fs sums len emp)
qed

lemma matching_values:
  assumes "\<forall>r\<in>set rows. legal_value (extracted_value r)"
  shows "\<forall>v\<in>set (map extracted_value (matching m f rows)). 0 \<le> v \<and> v \<le> 5"
  using assms by (auto simp: matching_def legal_value_def)

lemma matching_sum_exact:
  assumes "\<forall>r\<in>set rows. legal_value (extracted_value r)" "length rows < 2 ^ 60"
  shows "series_sum (map extracted_value (matching m f rows)) =
         sum_list (map extracted_value (matching m f rows))"
proof (rule series_sum_exact)
  show "\<forall>v\<in>set (map extracted_value (matching m f rows)). 0 \<le> v \<and> v \<le> 5"
    using assms(1) by (rule matching_values)
  have "length (matching m f rows) \<le> length rows"
    by (simp add: matching_def)
  with assms(2) show "length (map extracted_value (matching m f rows)) < 2 ^ 60"
    by simp
qed

lemma generate_summary_nonempty: "rows \<noteq> [] \<Longrightarrow> \<exists>blocks. generate_summary rows = Inr blocks"
  by (simp add: generate_summary_def column_check_def bind_err_def Let_def)

lemma summary_sums_exact:
  assumes "generate_summary rows = Inr blocks"
    and "\<forall>r\<in>set rows. legal_value (extracted_value r)" "length rows < 2 ^ 60"
  shows "\<forall>b\<in>set blocks. \<forall>(g, v)\<in>set (block_sums b).
            v = sum_list (map extracted_value (matching (block_llm b) g rows))"
proof (intro ballI)
  fix b gv
  assume b: "b \<in> set blocks" and gv: "gv \<in> set (block_sums b)"
  obtain g v where p: "gv = (g, v)" by (cases gv)
  with gv have "(g, v) \<in> set (block_sums b)" by simp
  with assms(1) b have "v = series_sum (map extracted_value (matching (block_llm b) g rows))"
    by (rule generate_summary_sums)
  also have "\<dots> = sum_list (map extracted_value (matching (block_llm b) g rows))"
    using assms(2,3) by (rule matching_sum_exact)
  finally show "case gv of (g, v) \<Rightarrow> v = sum_list (map extracted_value (matching (block_llm b) g rows))"
    by (simp add: p)
qed

lemma table_sum_exact:
  assumes "rows \<noteq> []" "\<forall>r\<in>set rows. legal_value (extracted_value r)" "length rows < 2 ^ 60"
  shows "\<exists>st. report_statistics rows = Inr st \<and>
         table_sum st m f =
           (if m \<in> llm ` set rows \<and>
               f \<in> moral_foundation ` set (filter (\<lambda>r. 0 \<le> extracted_value r) rows)
            then Some (sum_list (map extracted_value (matching m f rows))) else None)"
proof -
  have "series_sum (map extracted_value (matching m f rows)) =
      sum_list (map extracted_value (matching m f rows))"
    using assms(2,3) by (rule matching_sum_exact)
  then have "table_sum (calculate_statistics \<lparr> df = rows, valid_df = filter (\<lambda>r. 0 \<le> extracted_value r) rows \<rparr>) m f =
     (if m \<in> llm ` set rows \<and> f \<in> moral_foundation ` set (filter (\<lambda>r. 0 \<le> extracted_value r) rows)
      then Some (sum_list (map extracted_value (matching m f rows))) else None)"
    by (simp only: table_sum_calculate set_filter)
  with report_statistics_nonempty [OF assms(1)] show ?thesis
    by (intro exI conjI)
qed

text \<open>
  Claim C6, as stated, fails: a frame built from the empty list has no columns, so both
  aggregators raise \<open>KeyError\<close> on it and compute no sum; and the table has a sum only for
  the models of the list, not for every model identifier.
\<close>

theorem no_aggregate_for_empty_list:
  "report_statistics [] = Inl (PyError ''KeyError'' (CHR 0x27 # ''extracted_value'' @ [CHR 0x27])) \<and>
   generate_summary [] = Inl (PyError ''KeyError'' (CHR 0x27 # ''llm'' @ [CHR 0x27])) \<and>
   sum_list (map extracted_value (matching ''model-c'' ''Harm-Care'' sample_results)) = 0 \<and>
   map_sum id (\<lambda>st. table_sum st ''model-c'' ''Harm-Care'') (report_statistics sample_results) = Inr None"
proof (intro conjI)
  show "report_statistics [] = Inl (PyError ''KeyError'' (CHR 0x27 # ''extracted_value'' @ [CHR 0x27]))"
    by (rule report_statistics_empty)
  show "generate_summary [] = Inl (PyError ''KeyError'' (CHR 0x27 # ''llm'' @ [CHR 0x27]))"
    by (rule generate_summary_empty)
  show "sum_list (map extracted_value (matching ''model-c'' ''Harm-Care'' sample_results)) = 0"
    by code_simp
  show "map_sum id (\<lambda>st. table_sum st ''model-c'' ''Harm-Care'') (report_statistics sample_results) = Inr None"
    by code_simp
qed

text \<open>
  Claim C6, amended. For every list of results that is not empty (with legal extracted
  values, and fewer than \<open>2^60\<close> records, so that no 64-bit sum overflows), the table of
  the report holds, for every model of the list and every foundation of a valid record,
  the sum of \<open>extracted_value\<close> over exactly the records with \<open>extracted_value >= 0\<close>, that
  model and that foundation (0 when there is none), and no entry for any other pair; every
  sum of the text summary is that sum too. The aggregates of a permutation of the list are
  the same.
\<close>

theorem aggregate_sums:
  "(rows \<noteq> [] \<and> (\<forall>r\<in>set rows. legal_value (extracted_value r)) \<and> length rows < 2 ^ 60 \<longrightarrow>
      (\<exists>st. report_statistics rows = Inr st \<and>
         table_sum st m f =
           (if m \<in> llm ` set rows \<and>
               f \<in> moral_foundation ` set (filter (\<lambda>r. 0 \<le> extracted_value r) rows)
            then Some (sum_list (map extracted_value (matching m f rows))) else None)) \<and>
      (\<exists>blocks. generate_summary rows = Inr blocks \<and>
         (\<forall>b\<in>set blocks. \<forall>(g, v)\<in>set (block_sums b).
            v = sum_list (map extracted_value (matching (block_llm b) g rows)))))
   \<and> (mset rows' = mset rows \<longrightarrow>
        report_statistics rows' = report_statistics rows \<and>
        generate_summary rows' = generate_summary rows \<and>
        sum_list (map extracted_value (matching m f rows')) =
          sum_list (map extracted_value (matching m f rows)))"
proof (intro conjI impI)
  assume h: "rows \<noteq> [] \<and> (\<forall>r\<in>set rows. legal_value (extracted_value r)) \<and> length rows < 2 ^ 60"
  then have h1: "rows \<noteq> []" and h2: "\<forall>r\<in>set rows. legal_value (extracted_value r)"
    and h3: "length rows < 2 ^ 60"
    by simp_all
  from h1 h2 h3 show "\<exists>st. report_statistics rows = Inr st \<and>
         table_sum st m f =
           (if m \<in> llm ` set rows \<and>
               f \<in> moral_foundation ` set (filter (\<lambda>r. 0 \<le> extracted_value r) rows)
            then Some (sum_list (map extracted_value (matching m f rows))) else None)"
    by (rule table_sum_exact)
  from h1 obtain blocks where b: "generate_summary rows = Inr blocks"
    using generate_summary_nonempty by blast
  from b h2 h3 have "\<forall>b\<in>set blocks. \<forall>(g, v)\<in>set (block_sums b).
      v = sum_list (map extracted_value (matching (block_llm b) g rows))"
    by (rule summary_sums_exact)
  with b show "\<exists>blocks. generate_summary rows = Inr blocks \<and>
         (\<forall>b\<in>set blocks. \<forall>(g, v)\<in>set (block_sums b).
            v = sum_list (map extracted_value (matching (block_llm b) g rows)))"
    by (intro exI conjI)
next
  assume p: "mset rows' = mset rows"
  then show "report_statistics rows' = report_statistics rows"
    by (rule report_statistics_perm)
  from p show "generate_summary rows' = generate_summary rows"
    by (rule generate_summary_perm)
  from p have "mset (matching m f rows') = mset (matching m f rows)"
    by (simp add: matching_def)
  then have "mset (map extracted_value (matching m f rows')) =
             mset (map extracted_value (matching m f rows))"
    by simp
  then show "sum_list (map extracted_value (matching m f rows')) =
          sum_list (map extracted_value (matching m f rows))"
    by (metis sum_mset_sum_list)
qed

theorem aggregate_sums_witness:
  "sample_results \<noteq> [] \<and>
   list_all (\<lambda>r. legal_value (extracted_value r)) sample_results \<and>
   length sample_results < 2 ^ 60 \<and>
   (\<exists>st. report_statistics sample_results = Inr st \<and>
      table_sum st ''model-a'' ''Harm-Care'' = Some 8) \<and>
   mset (rev sample_results) = mset sample_results \<and>
   report_statistics (rev sample_results) = report_statistics sample_results"
proof -
  note t = aggregate_sums [of sample_results "''model-a''" "''Harm-Care''" "rev sample_results"]
  have a: "sample_results \<noteq> []"
    by (simp add: sample_results_def)
  have b: "list_all (\<lambda>r. legal_value (extracted_value r)) sample_results"
    by code_simp
  have c: "length sample_results < 2 ^ 60"
    by (simp add: sample_results_def)
  have v: "(if ''model-a'' \<in> llm ` set sample_results \<and>
               ''Harm-Care'' \<in> moral_foundation ` set (filter (\<lambda>r. 0 \<le> extracted_value r) sample_results)
            then Some (sum_list (map extracted_value (matching ''model-a'' ''Harm-Care'' sample_results)))
            else None) = Some 8"
    by code_simp
  from b have b': "\<forall>r\<in>set sample_results. legal_value (extracted_value r)"
    by (simp only: list_all_iff)
  have "\<exists>st. report_statistics sample_results = Inr st \<and>
      table_sum st ''model-a'' ''Harm-Care'' =
        (if ''model-a'' \<in> llm ` set sample_results \<and>
               ''Harm-Care'' \<in> moral_foundation ` set (filter (\<lambda>r. 0 \<le> extracted_value r) sample_results)
            then Some (sum_list (map extracted_value (matching ''model-a'' ''Harm-Care'' sample_results)))
            else None)"
    by (rule t [THEN conjunct1, THEN mp, OF conjI [OF a conjI [OF b' c]], THEN conjunct1])
  then have d: "\<exists>st. report_statistics sample_results = Inr st \<and>
      table_sum st ''model-a'' ''Harm-Care'' = Some 8"
    by (simp only: v)
  have e: "mset (rev sample_results) = mset sample_results"
    by simp
  have f: "report_statistics (rev sample_results) = report_statistics sample_results"
    by (rule t [THEN conjunct2, THEN mp, OF e, THEN conjunct1])
  from a b c d e f show ?thesis by (intro conjI)
qed

section \<open>Properties of the persisted result file\<close>

lemma row_of_result_dict [simp]: "row_of (result_dict r) = Some r"
  by (simp add: result_dict_def)

lemma rows_of_dump [simp]: "rows_of (map result_dict res) = Some res"
  by (induction res) simp_all

lemma load_dump [simp]: "load_results (dump_results res) = Some res"
  by (simp add: dump_results_def)

lemma summary_block_in_table:
  assumes "generate_summary rows = Inr blocks" "b \<in> set blocks" "(f, v) \<in> set (block_sums b)"
  shows "block_llm b \<in> llm ` set rows \<and>
         f \<in> moral_foundation ` {r \<in> set rows. 0 \<le> extracted_value r}"
  using assms
  unfolding generate_summary_def column_check_def bind_err_def Let_def
  by (auto split: if_splits)

text \<open>
  Claim C7. Writing a list of results as a result file and loading the file gives the
  list back, so the report computes from the file the aggregates (the sums for each model
  and foundation, and the sums for each foundation) that it computes from the list in
  memory; and every sum that the text summary takes from the list in memory is the sum
  that the table of the report, computed from the file, holds for that model and
  foundation.
\<close>

theorem results_round_trip:
  "load_results (dump_results res) = Some res
   \<and> report_of_file (dump_results res) = Some (report_statistics res)
   \<and> (generate_summary res = Inr blocks \<and> b \<in> set blocks \<and> (f, v) \<in> set (block_sums b) \<longrightarrow>
        (\<exists>st. report_of_file (dump_results res) = Some (Inr st) \<and>
              table_sum st (block_llm b) f = Some v))"
proof (intro conjI impI)
  show "load_results (dump_results res) = Some res"
    by (rule load_dump)
  show rf: "report_of_file (dump_results res) = Some (report_statistics res)"
    by (simp add: report_of_file_def)
  assume h: "generate_summary res = Inr blocks \<and> b \<in> set blocks \<and> (f, v) \<in> set (block_sums b)"
  then have ne: "res \<noteq> []"
    by (auto simp: generate_summary_empty)
  from h have v: "v = series_sum (map extracted_value (matching (block_llm b) f res))"
    using generate_summary_sums by blast
  from h have "block_llm b \<in> llm ` set res \<and>
         f \<in> moral_foundation ` {r \<in> set res. 0 \<le> extracted_value r}"
    using summary_block_in_table by blast
  then have "table_sum (calculate_statistics
      \<lparr> df = res, valid_df = filter (\<lambda>r. 0 \<le> extracted_value r) res \<rparr>) (block_llm b) f = Some v"
    by (simp only: table_sum_calculate v if_True simp_thms)
  with rf report_statistics_nonempty [OF ne]
  show "\<exists>st. report_of_file (dump_results res) = Some (Inr st) \<and>
              table_sum st (block_llm b) f = Some v"
    by simp
qed

theorem results_round_trip_witness:
  "generate_summary sample_results =
     Inr [\<lparr> block_llm = ''model-a'', block_valid = 2, block_total = 2,
            block_sums = [(''Harm-Care'', 8)] \<rparr>,
          \<lparr> block_llm = ''model-b'', block_valid = 0, block_total = 2, block_sums = [] \<rparr>] \<and>
   (\<exists>st. report_of_file (dump_results sample_results) = Some (Inr st) \<and>
         table_sum st ''model-a'' ''Harm-Care'' = Some 8) \<and>
   load_results (dump_results sample_results) = Some sample_results \<and>
   report_of_file (dump_results sample_results) = Some (report_statistics sample_results)"
proof -
  let ?a = "\<lparr> block_llm = ''model-a'', block_valid = 2, block_total = 2,
            block_sums = [(''Harm-Care'', 8)] \<rparr>"
  let ?b = "\<lparr> block_llm = ''model-b'', block_valid = 0, block_total = 2, block_sums = [] \<rparr>"
  note t = results_round_trip [of sample_results "[?a, ?b]" ?a "''Harm-Care''" 8]
  have g: "generate_summary sample_results = Inr [?a, ?b]"
    by code_simp
  have m: "?a \<in> set [?a, ?b]" "(''Harm-Care'', 8) \<in> set (block_sums ?a)"
    by simp_all
  have "\<exists>st. report_of_file (dump_results sample_results) = Some (Inr st) \<and>
         table_sum st (block_llm ?a) ''Harm-Care'' = Some 8"
    by (rule t [THEN conjunct2, THEN conjunct2, THEN mp, OF conjI [OF g conjI [OF m]]])
  then have s: "\<exists>st. report_of_file (dump_results sample_results) = Some (Inr st) \<and>
         table_sum st ''model-a'' ''Harm-Care'' = Some 8"
    by simp
  from g s t [THEN conjunct1] t [THEN conjunct2, THEN conjunct1]
  show ?thesis by (intro conjI)
qed


section \<open>Properties of the dashboard index\<close>

lemma subscript_result_dict:
  "subscript ''llm'' (result_dict r) = Inr (JStr (llm r))"
  "subscript ''moral_foundation'' (result_dict r) = Inr (JStr (moral_foundation r))"
  "subscript ''question'' (result_dict r) = Inr (JStr (question r))"
  "dict_get ''timestamp'' JNull (result_dict r) = Inr (JStr (timestamp r))"
  "dict_get ''extracted_value'' (JInt (- 1)) (result_dict r) = Inr (JInt (extracted_value r))"
  by (simp_all add: result_dict_def)

lemma insert_new_str:
  "insert_new (JStr s) (map JStr acc) = map JStr (if s \<in> set acc then acc else acc @ [s])"
  by (auto simp: image_iff)

lemma set_loop_str:
  assumes "\<And>r. f (h r) = Inr (JStr (g r))"
  shows "distinct acc \<Longrightarrow>
   \<exists>ds. set_loop f (map JStr acc) (map h xs) = Inr (map JStr ds) \<and>
        distinct ds \<and> set ds = set acc \<union> g ` set xs"
proof (induction xs arbitrary: acc)
  case Nil
  then show ?case by auto
next
  case (Cons x xs)
  let ?acc = "if g x \<in> set acc then acc else acc @ [g x]"
  from Cons.prems have "distinct ?acc" by simp
  from Cons.IH [OF this] obtain ds where
    "set_loop f (map JStr ?acc) (map h xs) = Inr (map JStr ds)"
    "distinct ds" "set ds = set ?acc \<union> g ` set xs" by blast
  then show ?case
    by (intro exI [of _ ds]) (auto simp: assms insert_new_str simp del: insert_new.simps)
qed

lemma py_set_str:
  assumes "\<And>r. f (h r) = Inr (JStr (g r))"
  shows "\<exists>ds. py_set f (map h xs) = Inr (map JStr ds) \<and> distinct ds \<and> set ds = g ` set xs"
  using set_loop_str [of f h g "[]" xs, OF assms] by (simp add: py_set_def)

lemma str_items_str [simp]: "str_items (map JStr ds) = Some ds"
  by (induction ds) simp_all

lemma sort_short: "length ds \<le> 1 \<Longrightarrow> sort ds = ds"
  by (cases ds) (auto simp: length_Suc_conv)

lemma py_sorted_str: "py_sorted (map JStr ds) = Inr (map JStr (sort ds))"
  by (simp add: py_sorted_def sort_short)

lemma sorted_set_str:
  assumes "\<And>r. f (h r) = Inr (JStr (g r))"
  shows "\<exists>ds. py_set f (map h xs) = Inr (map JStr ds) \<and> length ds = card (g ` set xs) \<and>
        py_sorted (map JStr ds) = Inr (map JStr (sorted_unique (map g xs)))"
proof -
  obtain ds where ds: "py_set f (map h xs) = Inr (map JStr ds)" "distinct ds"
      "set ds = g ` set xs"
    using py_set_str [of f h g xs, OF assms] by blast
  have "sort ds = sorted_unique (map g xs)"
    unfolding sorted_unique_def
    by (rule sorted_distinct_set_unique) (simp_all add: ds)
  moreover have "length ds = card (g ` set xs)"
    using ds by (metis distinct_card)
  ultimately show ?thesis
    using ds(1) by (auto simp: py_sorted_str)
qed

lemma timestamps_of_results:
  "(case filter truthy (map (\<lambda>r. JStr (timestamp r)) res) of [] \<Rightarrow> JNull | t # _ \<Rightarrow> t) =
   first_timestamp res"
proof -
  have "filter truthy (map (\<lambda>r. JStr (timestamp r)) res) =
        map JStr (filter (\<lambda>t. t \<noteq> []) (map timestamp res))"
    by (induction res) simp_all
  then show ?thesis
    by (simp add: first_timestamp_def split: list.splits)
qed

lemma map_err_map: "(\<And>x. f (h x) = Inr (g x)) \<Longrightarrow> map_err f (map h xs) = Inr (map g xs)"
  by (induction xs) auto

lemma index_file_of_results:
  assumes "res \<noteq> []"
  shows "index_file path \<lparr> contents = Inr (dump_results res), mtime_iso = t \<rparr> =
     Inr (Some
       \<lparr> ix_filename = basename path,
         ix_filepath = CHR ''/'' # slashes path,
         ix_timestamp = first_timestamp res,
         ix_llms = map JStr (sorted_unique (map llm res)),
         ix_llm_count = length (sorted_unique (map llm res)),
         ix_foundations = map JStr (sorted_unique (map moral_foundation res)),
         ix_question_count = card (question ` set res),
         ix_total_responses = length res,
         ix_valid_responses = length (filter (\<lambda>r. 0 \<le> extracted_value r) res),
         ix_date_generated = t \<rparr>)"
proof -
  let ?rows = "map result_dict res"
  have tr: "truthy (dump_results res)"
    using assms by (simp add: dump_results_def)
  have it: "iterate (dump_results res) = Inr ?rows"
    by (simp add: dump_results_def)
  have m4: "map_err (dict_get ''timestamp'' JNull) ?rows = Inr (map (\<lambda>r. JStr (timestamp r)) res)"
    by (simp add: map_err_map [where g = "\<lambda>r. JStr (timestamp r)"] subscript_result_dict)
  have m5: "map_err (\<lambda>r. case dict_get ''extracted_value'' (JInt (- 1)) r of
                            Inl e \<Rightarrow> Inl e | Inr v \<Rightarrow> ge_zero v) ?rows =
            Inr (map (\<lambda>r. 0 \<le> extracted_value r) res)"
    by (simp add: map_err_map [where g = "\<lambda>r. 0 \<le> extracted_value r"] subscript_result_dict)
  obtain ls where ls: "py_set (subscript ''llm'') ?rows = Inr (map JStr ls)"
      "py_sorted (map JStr ls) = Inr (map JStr (sorted_unique (map llm res)))"
    using sorted_set_str [of "subscript ''llm''" result_dict llm res]
    by (auto simp: subscript_result_dict)
  obtain fs where fs: "py_set (subscript ''moral_foundation'') ?rows = Inr (map JStr fs)"
      "py_sorted (map JStr fs) = Inr (map JStr (sorted_unique (map moral_foundation res)))"
    using sorted_set_str [of "subscript ''moral_foundation''" result_dict moral_foundation res]
    by (auto simp: subscript_result_dict)
  obtain qs where qs: "py_set (subscript ''question'') ?rows = Inr (map JStr qs)"
      "length qs = card (question ` set res)"
    using sorted_set_str [of "subscript ''question''" result_dict question res]
    by (auto simp: subscript_result_dict)
  have v: "length (filter (\<lambda>b. b) (map (\<lambda>r. 0 \<le> extracted_value r) res)) =
           length (filter (\<lambda>r. 0 \<le> extracted_value r) res)"
    by (induction res) simp_all
  show ?thesis
    unfolding index_file_def
    by (simp add: bind_err_def tr it m4 m5 ls fs qs v timestamps_of_results Let_def
          comp_def del: map_map)
qed

lemma index_file_corrupt: "contents file = Inl e \<Longrightarrow> index_file path file = Inl e"
  by (simp add: index_file_def bind_err_def)

lemma index_file_timestamp:
  assumes "index_file path file = Inr (Some entry)"
  shows "\<exists>data rows stamps.
           contents file = Inr data \<and> iterate data = Inr rows \<and>
           map_err (dict_get ''timestamp'' JNull) rows = Inr stamps \<and>
           ix_timestamp entry = (case filter truthy stamps of [] \<Rightarrow> JNull | t # _ \<Rightarrow> t)"
  using assms
  unfolding index_file_def bind_err_def Let_def
  by (auto split: sum.splits if_splits)

lemma index_loop_entries:
  "fst (index_loop fs files) =
     List.map_filter (\<lambda>p. case index_file p (fs p) of Inr (Some entry) \<Rightarrow> Some entry | _ \<Rightarrow> None) files"
  by (induction files) (auto simp: map_filter_simps split: prod.splits sum.splits option.splits)

lemma index_loop_warnings:
  "snd (index_loop fs files) =
     List.map_filter (\<lambda>p. case index_file p (fs p) of Inl e \<Rightarrow> Some (p, e) | _ \<Rightarrow> None) files"
  by (induction files) (auto simp: map_filter_simps split: prod.splits sum.splits option.splits)

lemma map_filter_removeAll:
  "g p = None \<Longrightarrow> List.map_filter g (removeAll p xs) = List.map_filter g xs"
  by (induction xs) (auto simp: map_filter_simps split: option.splits)

lemma rev_sort_removeAll: "rev (sort (removeAll p xs)) = removeAll p (rev (sort xs))"
proof -
  have "rev (sort (filter ((\<noteq>) p) xs)) = rev (filter ((\<noteq>) p) (sort xs))"
    by (simp only: filter_sort)
  also have "\<dots> = filter ((\<noteq>) p) (rev (sort xs))"
    by (simp only: rev_filter)
  finally show ?thesis
    by (simp only: removeAll_filter_not_eq)
qed

lemma distinct_pair_removeAll:
  assumes "distinct xs" "set xs = {a, b}" "a \<noteq> b"
  shows "removeAll b xs = [a]"
proof -
  have d: "distinct (removeAll b xs)" using assms(1) by (simp add: distinct_removeAll)
  have s: "set (removeAll b xs) = {a}" using assms(2,3) by auto
  then obtain y ys where c: "removeAll b xs = y # ys"
    by (cases "removeAll b xs") auto
  with d s have "y = a" "set ys \<subseteq> {a}" "a \<notin> set ys" by auto
  then have "ys = []" by (cases ys) auto
  with c \<open>y = a\<close> show ?thesis by simp
qed

lemma index_file_of_contents:
  assumes "res \<noteq> []" "contents file = Inr (dump_results res)"
  shows "index_file path file =
     Inr (Some
       \<lparr> ix_filename = basename path,
         ix_filepath = CHR ''/'' # slashes path,
         ix_timestamp = first_timestamp res,
         ix_llms = map JStr (sorted_unique (map llm res)),
         ix_llm_count = length (sorted_unique (map llm res)),
         ix_foundations = map JStr (sorted_unique (map moral_foundation res)),
         ix_question_count = card (question ` set res),
         ix_total_responses = length res,
         ix_valid_responses = length (filter (\<lambda>r. 0 \<le> extracted_value r) res),
         ix_date_generated = mtime_iso file \<rparr>)"
proof -
  from assms(2) have "file = \<lparr> contents = Inr (dump_results res), mtime_iso = mtime_iso file \<rparr>"
    by (cases "file") simp
  then show ?thesis
    using index_file_of_results [OF assms(1), of path "mtime_iso file"] by simp
qed

lemma index_without_corrupt:
  assumes "contents (fs bad) = Inl e"
  shows "fst (update_dashboard_index fs files) = fst (update_dashboard_index fs (removeAll bad files))"
proof -
  let ?g = "\<lambda>p. case index_file p (fs p) of Inr (Some entry) \<Rightarrow> Some entry | _ \<Rightarrow> None"
  from assms have "?g bad = None"
    by (simp add: index_file_corrupt)
  then have "List.map_filter ?g (removeAll bad (rev (sort files))) = List.map_filter ?g (rev (sort files))"
    by (rule map_filter_removeAll)
  then show ?thesis
    by (simp only: update_dashboard_index_def index_loop_entries rev_sort_removeAll)
qed

lemma map_filter_mem: "g p = Some y \<Longrightarrow> p \<in> set xs \<Longrightarrow> y \<in> set (List.map_filter g xs)"
  by (induction xs) (auto split: option.splits)

lemma warning_for_corrupt:
  assumes "contents (fs bad) = Inl e" "bad \<in> set files"
  shows "(bad, e) \<in> set (snd (update_dashboard_index fs files))"
proof -
  from assms(1) have "index_file bad (fs bad) = Inl e"
    by (rule index_file_corrupt)
  moreover from assms(2) have "bad \<in> set (rev (sort files))" by simp
  ultimately show ?thesis
    unfolding update_dashboard_index_def index_loop_warnings
    by (intro map_filter_mem) simp_all
qed

lemma warnings_without_indexed:
  assumes "index_file good (fs good) = Inr x"
  shows "snd (update_dashboard_index fs files) = snd (update_dashboard_index fs (removeAll good files))"
proof -
  let ?w = "\<lambda>p. case index_file p (fs p) of Inl e \<Rightarrow> Some (p, e) | _ \<Rightarrow> None"
  from assms have "?w good = None"
    by simp
  then have "List.map_filter ?w (removeAll good (rev (sort files))) = List.map_filter ?w (rev (sort files))"
    by (rule map_filter_removeAll)
  then show ?thesis
    by (simp only: update_dashboard_index_def index_loop_warnings rev_sort_removeAll)
qed

lemma one_good_one_corrupt:
  assumes "res \<noteq> []" "good \<noteq> bad" "distinct files" "set files = {good, bad}"
    and "contents (fs good) = Inr (dump_results res)" "contents (fs bad) = Inl e"
  shows "\<exists>entry. update_dashboard_index fs files = ([entry], [(bad, e)]) \<and>
           ix_filename entry = basename good \<and> ix_total_responses entry = length res"
proof -
  obtain entry where entry: "index_file good (fs good) = Inr (Some entry)"
      "ix_filename entry = basename good" "ix_total_responses entry = length res"
    using index_file_of_contents [OF assms(1) assms(5), of good] by simp
  have bad: "index_file bad (fs bad) = Inl e"
    using assms(6) by (rule index_file_corrupt)
  have "removeAll bad files = [good]"
    using assms(3,4,2) by (rule distinct_pair_removeAll)
  then have "fst (update_dashboard_index fs files) = fst (update_dashboard_index fs [good])"
    using index_without_corrupt [of fs bad e files, OF assms(6)] by simp
  then have i: "fst (update_dashboard_index fs files) = [entry]"
    by (simp add: update_dashboard_index_def entry(1))
  from assms(4) have "set files = {bad, good}" by auto
  with assms(3) have "removeAll good files = [bad]"
    using assms(2) by (intro distinct_pair_removeAll) auto
  then have "snd (update_dashboard_index fs files) = snd (update_dashboard_index fs [bad])"
    using warnings_without_indexed [of good fs "Some entry" files, OF entry(1)] by simp
  then have w: "snd (update_dashboard_index fs files) = [(bad, e)]"
    by (simp add: update_dashboard_index_def bad)
  from i w have "update_dashboard_index fs files = ([entry], [(bad, e)])"
    by (simp add: prod_eq_iff)
  with entry(2,3) show ?thesis by blast
qed

lemma sorted_first_is_earliest:
  assumes "sorted (map timestamp res)"
  shows "first_timestamp res = earliest_timestamp res"
proof (cases "filter (\<lambda>t. t \<noteq> []) (map timestamp res)")
  case Nil
  then show ?thesis
    by (simp add: first_timestamp_def earliest_timestamp_def)
next
  case (Cons t ts)
  from assms have "sorted (filter (\<lambda>t. t \<noteq> []) (map timestamp res))"
    by (rule sorted_wrt_filter)
  with Cons have "\<forall>u\<in>set (t # ts). t \<le> u" by auto
  then have "Min (set (t # ts)) = t"
    by (intro Min_eqI) auto
  with Cons show ?thesis
    by (simp add: first_timestamp_def earliest_timestamp_def Let_def)
qed

text \<open>
  Claim C8. A file that cannot be read or parsed adds no entry to the index and one
  warning to the output, and the index is the one that the other files give without it.
  Over a directory with one well-formed result file that is not empty and one corrupt
  file, the index has exactly one entry, that of the well-formed file, and there is one
  warning, for the corrupt file.
\<close>

theorem corrupt_file_is_skipped:
  "(contents (fs bad) = Inl e \<longrightarrow>
      fst (update_dashboard_index fs files) =
        fst (update_dashboard_index fs (removeAll bad files)) \<and>
      (bad \<in> set files \<longrightarrow> (bad, e) \<in> set (snd (update_dashboard_index fs files))))
   \<and> (res \<noteq> [] \<and> good \<noteq> bad \<and> distinct files \<and> set files = {good, bad} \<and>
       contents (fs good) = Inr (dump_results res) \<and> contents (fs bad) = Inl e \<longrightarrow>
       (\<exists>entry. update_dashboard_index fs files = ([entry], [(bad, e)]) \<and>
          ix_filename entry = basename good \<and> ix_total_responses entry = length res))"
proof (intro conjI impI)
  assume c: "contents (fs bad) = Inl e"
  then show "fst (update_dashboard_index fs files) =
        fst (update_dashboard_index fs (removeAll bad files))"
    by (rule index_without_corrupt)
  show "(bad, e) \<in> set (snd (update_dashboard_index fs files))" if "bad \<in> set files"
    using c that by (rule warning_for_corrupt)
next
  assume "res \<noteq> [] \<and> good \<noteq> bad \<and> distinct files \<and> set files = {good, bad} \<and>
       contents (fs good) = Inr (dump_results res) \<and> contents (fs bad) = Inl e"
  then have "res \<noteq> []" "good \<noteq> bad" "distinct files" "set files = {good, bad}"
       "contents (fs good) = Inr (dump_results res)" "contents (fs bad) = Inl e"
    by simp_all
  then show "\<exists>entry. update_dashboard_index fs files = ([entry], [(bad, e)]) \<and>
          ix_filename entry = basename good \<and> ix_total_responses entry = length res"
    by (rule one_good_one_corrupt)
qed

theorem corrupt_file_is_skipped_witness:
  "sample_results \<noteq> [] \<and>
   ''results/moral_foundations_results_20250101_100005.json'' \<noteq>
     ''results/moral_foundations_results_20250103_080000.json'' \<and>
   distinct [''results/moral_foundations_results_20250101_100005.json'',
             ''results/moral_foundations_results_20250103_080000.json''] \<and>
   contents (sample_directory ''results/moral_foundations_results_20250101_100005.json'') =
     Inr (dump_results sample_results) \<and>
   contents (sample_directory ''results/moral_foundations_results_20250103_080000.json'') =
     Inl (PyError ''JSONDecodeError'' ''Expecting value: line 1 column 1 (char 0)'') \<and>
   (\<exists>entry.
      update_dashboard_index sample_directory
        [''results/moral_foundations_results_20250101_100005.json'',
         ''results/moral_foundations_results_20250103_080000.json''] =
        ([entry], [(''results/moral_foundations_results_20250103_080000.json'',
                    PyError ''JSONDecodeError'' ''Expecting value: line 1 column 1 (char 0)'')]) \<and>
      ix_filename entry = basename ''results/moral_foundations_results_20250101_100005.json'' \<and>
      ix_total_responses entry = length sample_results)"
proof -
  let ?good = "''results/moral_foundations_results_20250101_100005.json''"
  let ?bad = "''results/moral_foundations_results_20250103_080000.json''"
  let ?e = "PyError ''JSONDecodeError'' ''Expecting value: line 1 column 1 (char 0)''"
  note t = corrupt_file_is_skipped [of sample_directory ?bad ?e "[?good, ?bad]" sample_results ?good]
  have a: "sample_results \<noteq> []"
    by (simp add: sample_results_def)
  have b: "?good \<noteq> ?bad"
    by simp
  have c: "distinct [?good, ?bad]"
    by simp
  have d: "set [?good, ?bad] = {?good, ?bad}"
    by simp
  have g: "contents (sample_directory ?good) = Inr (dump_results sample_results)"
    by (simp add: sample_directory_def sample_file_def)
  have h: "contents (sample_directory ?bad) = Inl ?e"
    by (simp add: sample_directory_def corrupt_file_def)
  have "\<exists>entry. update_dashboard_index sample_directory [?good, ?bad] = ([entry], [(?bad, ?e)]) \<and>
          ix_filename entry = basename ?good \<and> ix_total_responses entry = length sample_results"
    by (rule t [THEN conjunct2, THEN mp,
          OF conjI [OF a conjI [OF b conjI [OF c conjI [OF d conjI [OF g h]]]]]])
  with a b c g h show ?thesis by (intro conjI)
qed

text \<open>
  Claim C9, as stated, fails: the entry takes the timestamp of the first record of the
  file, which is not the least one when the records are not in the order of their
  timestamps (the clock of \<open>datetime.now()\<close> is the local wall clock, which steps back at
  the end of daylight saving time).
\<close>

theorem index_timestamp_not_earliest:
  "index_file ''results/moral_foundations_results_20251026_020002.json'' late_first_file =
     Inr (Some
       \<lparr> ix_filename = ''moral_foundations_results_20251026_020002.json'',
         ix_filepath = ''/results/moral_foundations_results_20251026_020002.json'',
         ix_timestamp = JStr ''2025-10-26T02:59:58'',
         ix_llms = [JStr ''model-a''],
         ix_llm_count = 1,
         ix_foundations = [JStr ''Harm-Care''],
         ix_question_count = 2,
         ix_total_responses = 2,
         ix_valid_responses = 2,
         ix_date_generated = ''2025-10-26T02:00:02'' \<rparr>) \<and>
   earliest_timestamp late_first_results = JStr ''2025-10-26T02:00:01'' \<and>
   contents late_first_file = Inr (dump_results late_first_results)"
  by code_simp

text \<open>
  Claim C9, amended. For every result file that gets an entry, the timestamp of the entry
  is the first timestamp in the order of the file, among the records that carry one that
  is not empty, and \<open>None\<close> when no record carries one. It is the earliest timestamp when
  the records of the file are in the order of their timestamps.
\<close>

theorem index_timestamp_is_first:
  "(index_file path rf = Inr (Some entry) \<longrightarrow>
      (\<exists>data rows stamps.
         contents rf = Inr data \<and> iterate data = Inr rows \<and>
         map_err (dict_get ''timestamp'' JNull) rows = Inr stamps \<and>
         ix_timestamp entry = (case filter truthy stamps of [] \<Rightarrow> JNull | t # _ \<Rightarrow> t)))
   \<and> (res \<noteq> [] \<and> contents rf = Inr (dump_results res) \<longrightarrow>
        (\<exists>entry. index_file path rf = Inr (Some entry) \<and>
           ix_timestamp entry = first_timestamp res))
   \<and> ((\<forall>r\<in>set res. timestamp r = []) \<longrightarrow> first_timestamp res = JNull)
   \<and> (sorted (map timestamp res) \<longrightarrow> first_timestamp res = earliest_timestamp res)"
proof (intro conjI impI)
  assume "index_file path rf = Inr (Some entry)"
  then show "\<exists>data rows stamps.
         contents rf = Inr data \<and> iterate data = Inr rows \<and>
         map_err (dict_get ''timestamp'' JNull) rows = Inr stamps \<and>
         ix_timestamp entry = (case filter truthy stamps of [] \<Rightarrow> JNull | t # _ \<Rightarrow> t)"
    by (rule index_file_timestamp)
next
  assume "res \<noteq> [] \<and> contents rf = Inr (dump_results res)"
  then have "res \<noteq> []" "contents rf = Inr (dump_results res)"
    by simp_all
  from index_file_of_contents [OF this, of path]
  show "\<exists>entry. index_file path rf = Inr (Some entry) \<and>
           ix_timestamp entry = first_timestamp res"
    by simp
next
  assume "\<forall>r\<in>set res. timestamp r = []"
  then have "filter (\<lambda>t. t \<noteq> []) (map timestamp res) = []"
    by (simp add: filter_empty_conv)
  then show "first_timestamp res = JNull"
    by (simp add: first_timestamp_def)
next
  assume "sorted (map timestamp res)"
  then show "first_timestamp res = earliest_timestamp res"
    by (rule sorted_first_is_earliest)
qed

theorem index_timestamp_is_first_witness:
  "sample_results \<noteq> [] \<and>
   contents sample_file = Inr (dump_results sample_results) \<and>
   sorted (map timestamp sample_results) \<and>
   (\<exists>entry. index_file ''results/moral_foundations_results_20250101_100005.json'' sample_file =
              Inr (Some entry) \<and>
            ix_timestamp entry = first_timestamp sample_results) \<and>
   first_timestamp sample_results = earliest_timestamp sample_results \<and>
   first_timestamp sample_results = JStr ''2025-01-01T10:00:01''"
proof -
  note t = index_timestamp_is_first
    [of "''results/moral_foundations_results_20250101_100005.json''" sample_file _ sample_results]
  have a: "sample_results \<noteq> []"
    by (simp add: sample_results_def)
  have b: "contents sample_file = Inr (dump_results sample_results)"
    by (simp add: sample_file_def)
  have c: "sorted (map timestamp sample_results)"
    by code_simp
  have d: "\<exists>entry. index_file ''results/moral_foundations_results_20250101_100005.json'' sample_file =
              Inr (Some entry) \<and> ix_timestamp entry = first_timestamp sample_results"
    by (rule t [THEN conjunct2, THEN conjunct1, THEN mp, OF conjI [OF a b]])
  have e: "first_timestamp sample_results = earliest_timestamp sample_results"
    by (rule t [THEN conjunct2, THEN conjunct2, THEN conjunct2, THEN mp, OF c])
  have f: "first_timestamp sample_results = JStr ''2025-01-01T10:00:01''"
    by code_simp
  from a b c d e f show ?thesis by (intro conjI)
qed

end
